theory Spec2Isabelle
  imports Main "HOL-Library.Multiset"
begin

section \<open>The external service as the notebooks see it\<close>

text \<open>
  The two notebooks (\<^verbatim>\<open>01_Data_Layer.ipynb\<close>, \<^verbatim>\<open>02_Training_Layer.ipynb\<close>) are flat scripts
  that call the Amazon Personalize, S3 and IAM clients of boto3. A resource is known to a
  notebook only by the ARN string a creation call returned.
\<close>

type_synonym arn = string

text \<open>
  The resource kinds that have a describe operation the notebooks call:
  \<^verbatim>\<open>describe_dataset_group\<close>, \<^verbatim>\<open>describe_dataset_import_job\<close>,
  \<^verbatim>\<open>describe_solution_version\<close>, \<^verbatim>\<open>describe_campaign\<close>, \<^verbatim>\<open>describe_filter\<close>.
\<close>

datatype kind = DatasetGroup | DatasetImportJob | SolutionVersion | Campaign | Filter

text \<open>
  A describe response is a dictionary with one nested resource record (under the key
  \<^verbatim>\<open>"datasetGroup"\<close>, \<^verbatim>\<open>"datasetImportJob"\<close>, \<^verbatim>\<open>"solutionVersion"\<close>, \<^verbatim>\<open>"campaign"\<close> or
  \<^verbatim>\<open>"filter"\<close>). The notebooks read \<^verbatim>\<open>response[<kind>]["status"]\<close> from the nested record
  and \<^verbatim>\<open>response.get('failureReason')\<close> from the top level of the dictionary, so the model
  keeps both places apart: \<open>failureReason\<close> is the key inside the nested record,
  \<open>top_failureReason\<close> the key at the top level (\<open>None\<close>: the key is absent).
\<close>

record resource_record =
  status :: string
  failureReason :: "string option"

record describe_response =
  nested :: resource_record
  top_failureReason :: "string option"

text \<open>The calls the notebooks make, with the arguments the source passes.\<close>

datatype request =
    Create_schema string
  | List_schemas nat
  | Create_dataset_group string
  | Describe kind arn
  | Create_dataset string string arn arn
  | Get_caller_identity
  | Create_bucket string "string option"
  | Upload_file string string string
  | Put_bucket_policy string
  | Create_role string
  | Get_role string
  | Attach_role_policy string string
  | Create_dataset_import_job string arn string arn
  | List_recipes
  | Create_solution string arn arn
  | Create_solution_version arn
  | Get_solution_metrics arn
  | Create_campaign string arn nat
  | Create_filter string arn string

datatype api_error =
    ResourceAlreadyExistsException
  | EntityAlreadyExistsException
  | OtherClientError string

text \<open>
  The service is an oracle: what it answers depends on the request and on the time of the
  call (the clock is in whole seconds; \<^verbatim>\<open>time.time()\<close> reads it, \<^verbatim>\<open>time.sleep(n)\<close> advances
  it by \<open>n\<close>, and every call of the service advances it by \<open>latency\<close>).
  \<^item> \<open>describe k a t\<close>: the response to the describe call of kind \<open>k\<close> on \<open>a\<close> issued at \<open>t\<close>;
  \<^item> \<open>respond r t\<close>: the identifier (or other string) an answering call returns, or the
    client error it raises;
  \<^item> \<open>listing n t\<close>: the (name, ARN) summaries \<^verbatim>\<open>list_schemas(maxResults=n)\<close> returns.
\<close>

record world =
  latency :: nat
  describe :: "kind \<Rightarrow> arn \<Rightarrow> nat \<Rightarrow> describe_response"
  respond :: "request \<Rightarrow> nat \<Rightarrow> api_error + string"
  listing :: "nat \<Rightarrow> nat \<Rightarrow> api_error + (string \<times> arn) list"

section \<open>Printed lines and the event trace\<close>

text \<open>
  Every \<^verbatim>\<open>print\<close> of the notebooks is a constructor of \<open>line\<close>; \<open>render\<close> gives its text.
\<close>

datatype line =
    Completed kind arn
  | Failed_line kind arn
  | Reason string
  | Still_in_progress kind
  | All_ended kind
  | Status_line kind string
  | Json_dump string
  | Already_created
  | Using_existing arn
  | Role_exists_warning
  | Text string

fun noun :: "kind \<Rightarrow> string" where
  "noun DatasetImportJob = ''Import job''"
| "noun SolutionVersion = ''Solution version''"
| "noun Campaign = ''Campaign''"
| "noun DatasetGroup = ''DatasetGroup''"
| "noun Filter = ''Filter''"

fun still_text :: "kind \<Rightarrow> string" where
  "still_text DatasetImportJob = ''At least one dataset import job still in progress''"
| "still_text SolutionVersion = ''At least one solution version is still in progress''"
| "still_text Campaign = ''At least one campaign is still in progress''"
| "still_text k = []"

fun ended_text :: "kind \<Rightarrow> string" where
  "ended_text DatasetImportJob = ''All import jobs have ended''"
| "ended_text SolutionVersion = ''All solution versions have completed''"
| "ended_text Campaign = ''All campaigns have completed''"
| "ended_text k = []"

fun render :: "line \<Rightarrow> string" where
  "render (Completed k a) = noun k @ '' '' @ a @ '' successfully completed''"
| "render (Failed_line k a) = noun k @ '' '' @ a @ '' failed''"
| "render (Reason r) = ''   Reason: '' @ r"
| "render (Still_in_progress k) = still_text k"
| "render (All_ended k) = ended_text k"
| "render (Status_line k st) = noun k @ '': '' @ st"
| "render (Json_dump a) = a"
| "render Already_created = ''You aready created this schema, seemingly''"
| "render (Using_existing a) = ''Using existing schema: '' @ a"
| "render Role_exists_warning = ''Warning: role already exists:''"
| "render (Text t) = t"

text \<open>
  The trace records, in order, what a run did: the API calls with the time they were
  issued at, the printed lines, the sleeps, and the \<^verbatim>\<open>list.remove\<close> calls of the polling
  loops. Only the printed lines are visible to the user of the notebook; the rest is
  bookkeeping of the model.
\<close>

datatype event =
    Call nat request
  | Print line
  | Sleep nat
  | Remove arn

section \<open>The multi-resource polling loops\<close>

text \<open>
  The three loops (import jobs in the data layer, solution versions and campaigns in the
  training layer) are the same code up to the describe operation and the nouns printed:
  \<^verbatim>\<open>
  max_time = time.time() + 3*60*60 # 3 hours
  while time.time() < max_time:
      for job_arn in reversed(import_job_arns):
          import_job_response = personalize.describe_dataset_import_job(
              datasetImportJobArn = job_arn)
          status = import_job_response["datasetImportJob"]['status']
          if status == "ACTIVE":
              print(f'Import job {job_arn} successfully completed')
              import_job_arns.remove(job_arn)
          elif status == "CREATE FAILED":
              print(f'Import job {job_arn} failed')
              if import_job_response.get('failureReason'):
                  print('   Reason: ' + import_job_response['failureReason'])
              import_job_arns.remove(job_arn)
      if len(import_job_arns) > 0:
          print('At least one dataset import job still in progress')
          time.sleep(60)
      else:
          print("All import jobs have ended")
          break
  \<close>
  The state of a loop: the clock and the trace (which every part of a run has), the
  working list (\<^verbatim>\<open>import_job_arns\<close>, \<^verbatim>\<open>soln_ver_arns\<close>, \<^verbatim>\<open>campaign_arns\<close>), and a count of
  the iterations of the \<^verbatim>\<open>while\<close> body begun.
\<close>

record run_state =
  now :: nat
  trace :: "event list"

record poll_state = run_state +
  pending :: "arn list"
  rounds :: nat

definition terminal :: "string \<Rightarrow> bool" where
  "terminal st \<longleftrightarrow> st = ''ACTIVE'' \<or> st = ''CREATE FAILED''"

text \<open>
  \<^verbatim>\<open>if response.get('failureReason'): print('   Reason: ' + response['failureReason'])\<close>:
  the key is read at the top level of the response, and an empty string is falsy.
\<close>

fun reason_lines :: "string option \<Rightarrow> event list" where
  "reason_lines None = []"
| "reason_lines (Some r) = (if r = [] then [] else [Print (Reason r)])"

text \<open>
  The body of the \<^verbatim>\<open>for\<close> loop for one identifier. \<^verbatim>\<open>list.remove(x)\<close> deletes the first
  element equal to \<open>x\<close>, which is \<open>remove1\<close>; it raises only when \<open>x\<close> is not in the list,
  and here \<open>x\<close> was just read from the list.
\<close>

definition poll_body :: "world \<Rightarrow> kind \<Rightarrow> arn \<Rightarrow> poll_state \<Rightarrow> poll_state" where
  "poll_body w k job_arn s =
     (let response = describe w k job_arn (now s);
          st = status (nested response);
          s1 = s\<lparr>now := now s + latency w,
                 trace := trace s @ [Call (now s) (Describe k job_arn)]\<rparr>
      in if st = ''ACTIVE'' then
           s1\<lparr>trace := trace s1 @ [Print (Completed k job_arn), Remove job_arn],
              pending := remove1 job_arn (pending s1)\<rparr>
         else if st = ''CREATE FAILED'' then
           s1\<lparr>trace := trace s1 @ [Print (Failed_line k job_arn)]
                    @ reason_lines (top_failureReason response) @ [Remove job_arn],
              pending := remove1 job_arn (pending s1)\<rparr>
         else s1)"

text \<open>
  \<^verbatim>\<open>for job_arn in reversed(import_job_arns)\<close>: \<^verbatim>\<open>reversed\<close> of a list is an iterator over
  the live list, not a copy. It holds an index that starts at \<^verbatim>\<open>len - 1\<close>; each step
  yields \<^verbatim>\<open>list[index]\<close> and decrements the index when \<^verbatim>\<open>0 <= index < len(list)\<close> (the
  length read at that moment), otherwise the iteration is over. The first argument of
  \<open>for_reversed\<close> is that index plus one.
\<close>

fun for_reversed :: "world \<Rightarrow> kind \<Rightarrow> nat \<Rightarrow> poll_state \<Rightarrow> poll_state" where
  "for_reversed w k 0 s = s"
| "for_reversed w k (Suc i) s =
     (if i < length (pending s)
      then for_reversed w k i (poll_body w k (pending s ! i) s)
      else s)"

definition poll_round :: "world \<Rightarrow> kind \<Rightarrow> poll_state \<Rightarrow> poll_state" where
  "poll_round w k s = for_reversed w k (length (pending s)) (s\<lparr>rounds := Suc (rounds s)\<rparr>)"

lemma now_poll_body: "now s \<le> now (poll_body w k x s)"
  by (simp add: poll_body_def Let_def)

lemma now_for_reversed: "now s \<le> now (for_reversed w k n s)"
proof (induction n arbitrary: s)
  case 0
  then show ?case by simp
next
  case (Suc n)
  show ?case
    using Suc.IH [of "poll_body w k (pending s ! n) s"] now_poll_body [of s w k "pending s ! n"]
    by simp
qed

lemma now_poll_round: "now s \<le> now (poll_round w k s)"
  using now_for_reversed [of "s\<lparr>rounds := Suc (rounds s)\<rparr>" w k "length (pending s)"]
  by (simp add: poll_round_def)

function poll_all :: "world \<Rightarrow> kind \<Rightarrow> nat \<Rightarrow> poll_state \<Rightarrow> poll_state" where
  "poll_all w k max_time s =
     (if now s < max_time then
        (let s1 = poll_round w k s in
         if length (pending s1) > 0
         then poll_all w k max_time
                (s1\<lparr>trace := trace s1 @ [Print (Still_in_progress k), Sleep 60],
                    now := now s1 + 60\<rparr>)
         else s1\<lparr>trace := trace s1 @ [Print (All_ended k)]\<rparr>)
      else s)"
  by pat_completeness auto
termination
proof (relation "measure (\<lambda>(w, k, max_time, s). max_time - now s)")
  show "wf (measure (\<lambda>(w, k, max_time, s). max_time - now s))" by simp
next
  fix w :: world and k :: kind and max_time :: nat and s x :: poll_state
  assume "now s < max_time" and "x = poll_round w k s"
  then show "((w, k, max_time, x\<lparr>trace := trace x @ [Print (Still_in_progress k), Sleep 60],
                 now := now x + 60\<rparr>), (w, k, max_time, s))
             \<in> measure (\<lambda>(w, k, max_time, s). max_time - now s)"
    using now_poll_round [of s w k] by simp
qed

declare poll_all.simps [simp del]

text \<open>The whole cell: the list literal, the deadline three hours ahead, the loop.\<close>

definition poll_cell :: "world \<Rightarrow> kind \<Rightarrow> arn list \<Rightarrow> nat \<Rightarrow> poll_state" where
  "poll_cell w k arns t0 =
     poll_all w k (t0 + 3 * 60 * 60) \<lparr>now = t0, trace = [], pending = arns, rounds = 0\<rparr>"

section \<open>The single-resource wait loops\<close>





section \<open>The item-name helper of the data layer\<close>

text \<open>
  \<^verbatim>\<open>
  def get_item_name_from_id ( item_id ):
      item_name = item_metadata_df [item_metadata_df ['id'] == item_id]['name'].values[0]
      return item_name
  \<close>
  \<^verbatim>\<open>item_metadata_df\<close> is a global table with the columns \<^verbatim>\<open>id\<close>, \<^verbatim>\<open>name\<close>, \<^verbatim>\<open>category\<close>,
  \<^verbatim>\<open>style\<close>, \<^verbatim>\<open>featured\<close>; it is a parameter here. The boolean mask selects the rows whose
  \<^verbatim>\<open>id\<close> equals \<^verbatim>\<open>item_id\<close>, \<^verbatim>\<open>['name'].values\<close> is the array of their names, and \<^verbatim>\<open>[0]\<close>
  raises IndexError on an empty array.
\<close>

datatype py_error = IndexError | ValueError | NameError string | ClientError api_error

record item_metadata_row =
  id_col :: string
  name_col :: string
  category_col :: string
  style_col :: string
  featured_col :: string

record products_row =
  ITEM_ID :: string
  CATEGORY :: string
  STYLE :: string
  DESCRIPTION :: string

definition get_item_name_from_id :: "item_metadata_row list \<Rightarrow> string \<Rightarrow> py_error + string" where
  "get_item_name_from_id item_metadata_df item_id =
     (case map name_col (filter (\<lambda>row. id_col row = item_id) item_metadata_df) of
        [] \<Rightarrow> Inl IndexError
      | item_name # others \<Rightarrow> Inr item_name)"

text \<open>
  Its caller:
  \<^verbatim>\<open>
  test = products_df.copy()
  test['ITEM_NAME'] = test.apply(lambda row: get_item_name_from_id(row['ITEM_ID'] ), axis=1)
  \<close>
  On a frame that has rows, \<^verbatim>\<open>DataFrame.apply(f, axis=1)\<close> calls \<^verbatim>\<open>f\<close> on the rows in order,
  the first exception ends it, and the result is the series of the values returned
  (\<open>apply_rows\<close>, on the first row and the rows after it). On a frame without rows no
  series is built: \<^verbatim>\<open>apply\<close> tries \<^verbatim>\<open>f\<close> once on a row of missing values, discards the
  exception that the lookup of a missing id raises, and returns a copy of the frame.
  The assignment to the one column \<^verbatim>\<open>ITEM_NAME\<close> takes a series; given a frame of several
  columns it raises ValueError.
\<close>

datatype applied = Series "string list" | Frame "products_row list"

fun apply_rows ::
  "item_metadata_row list \<Rightarrow> products_row \<Rightarrow> products_row list \<Rightarrow> py_error + string list" where
  "apply_rows item_metadata_df row [] =
     (case get_item_name_from_id item_metadata_df (ITEM_ID row) of
        Inl e \<Rightarrow> Inl e
      | Inr item_name \<Rightarrow> Inr [item_name])"
| "apply_rows item_metadata_df row (next_row # rows) =
     (case get_item_name_from_id item_metadata_df (ITEM_ID row) of
        Inl e \<Rightarrow> Inl e
      | Inr item_name \<Rightarrow>
          (case apply_rows item_metadata_df next_row rows of
             Inl e \<Rightarrow> Inl e
           | Inr names \<Rightarrow> Inr (item_name # names)))"

definition apply_axis1 :: "item_metadata_row list \<Rightarrow> products_row list \<Rightarrow> py_error + applied" where
  "apply_axis1 item_metadata_df frame =
     (case frame of
        [] \<Rightarrow> Inr (Frame frame)
      | row # rows \<Rightarrow>
          (case apply_rows item_metadata_df row rows of
             Inl e \<Rightarrow> Inl e
           | Inr names \<Rightarrow> Inr (Series names)))"

definition item_names_cell ::
  "item_metadata_row list \<Rightarrow> products_row list \<Rightarrow> py_error + (products_row \<times> string) list" where
  "item_names_cell item_metadata_df products_df =
     (case apply_axis1 item_metadata_df products_df of
        Inl e \<Rightarrow> Inl e
      | Inr (Series names) \<Rightarrow> Inr (zip products_df names)
      | Inr (Frame copy) \<Rightarrow> Inl ValueError)"

definition example_metadata :: "item_metadata_row list" where
  "example_metadata =
     [\<lparr>id_col = ''1'', name_col = ''Sneakers'', category_col = ''footwear'', style_col = ''sneaker'',
       featured_col = ''true''\<rparr>,
      \<lparr>id_col = ''2'', name_col = ''Kettle'', category_col = ''housewares'', style_col = ''kitchen'',
       featured_col = ''false''\<rparr>,
      \<lparr>id_col = ''1'', name_col = ''Boots'', category_col = ''footwear'', style_col = ''boot'',
       featured_col = ''false''\<rparr>]"

definition example_products :: "products_row list" where
  "example_products =
     [\<lparr>ITEM_ID = ''2'', CATEGORY = ''housewares'', STYLE = ''kitchen'', DESCRIPTION = ''A kettle''\<rparr>,
      \<lparr>ITEM_ID = ''1'', CATEGORY = ''footwear'', STYLE = ''sneaker'', DESCRIPTION = ''A shoe''\<rparr>]"

section \<open>The notebooks as sequences of cells\<close>

text \<open>
  A notebook is run cell by cell; a cell is a sequence of statements over the global
  variables. The state of a run: the clock, the trace, the exception that ended the run
  (if any), and the global variables that hold strings. An exception nobody catches ends
  the cell and the run (\<open>raised\<close>); reading a variable that is not bound raises NameError.
\<close>

record notebook = run_state +
  raised :: "py_error option"
  vars :: "string \<Rightarrow> string option"

definition fresh_notebook :: "nat \<Rightarrow> notebook" where
  "fresh_notebook t0 = \<lparr>now = t0, trace = [], raised = None, vars = (\<lambda>x. None)\<rparr>"

type_synonym stmt = "notebook \<Rightarrow> notebook"

definition print_line :: "line \<Rightarrow> stmt" where
  "print_line l s = s\<lparr>trace := trace s @ [Print l]\<rparr>"

definition sleep :: "nat \<Rightarrow> stmt" where
  "sleep n s = s\<lparr>trace := trace s @ [Sleep n], now := now s + n\<rparr>"

definition assign :: "string \<Rightarrow> string \<Rightarrow> stmt" where
  "assign x v s = s\<lparr>vars := (vars s)(x \<mapsto> v)\<rparr>"

definition raise :: "py_error \<Rightarrow> stmt" where
  "raise e s = s\<lparr>raised := Some e\<rparr>"

definition read_var :: "string \<Rightarrow> (string \<Rightarrow> stmt) \<Rightarrow> stmt" where
  "read_var x f s = (case vars s x of None \<Rightarrow> raise (NameError x) s | Some v \<Rightarrow> f v s)"

text \<open>Statements in order; nothing runs after an exception.\<close>

fun run :: "stmt list \<Rightarrow> stmt" where
  "run [] s = s"
| "run (c # cs) s = (if raised s = None then run cs (c s) else s)"

text \<open>
  A call of the service: the event is recorded, the clock advances by the latency, and
  the continuation gets the answer or the client error. \<open>returning\<close> is a call site without
  a handler: the error propagates.
\<close>

definition called :: "world \<Rightarrow> request \<Rightarrow> stmt" where
  "called w r s = s\<lparr>trace := trace s @ [Call (now s) r], now := now s + latency w\<rparr>"

definition call :: "world \<Rightarrow> request \<Rightarrow> (api_error + string \<Rightarrow> stmt) \<Rightarrow> stmt" where
  "call w r f s = f (respond w r (now s)) (called w r s)"

definition call_list_schemas ::
  "world \<Rightarrow> nat \<Rightarrow> (api_error + (string \<times> arn) list \<Rightarrow> stmt) \<Rightarrow> stmt" where
  "call_list_schemas w n f s = f (listing w n (now s)) (called w (List_schemas n) s)"

definition returning :: "(string \<Rightarrow> stmt) \<Rightarrow> api_error + string \<Rightarrow> stmt" where
  "returning f r = (case r of Inl e \<Rightarrow> raise (ClientError e) | Inr v \<Rightarrow> f v)"

definition ignore_result :: "string \<Rightarrow> stmt" where
  "ignore_result v s = s"

subsection \<open>Schemas\<close>

text \<open>
  \<^verbatim>\<open>
  try:
      create_schema_response = personalize.create_schema(
          name = "personalize-immersion-day-retail-schema-interactions",
          schema = json.dumps(interactions_schema))
      print(json.dumps(create_schema_response, indent=2))
      interactions_schema_arn = create_schema_response['schemaArn']
  except personalize.exceptions.ResourceAlreadyExistsException:
      print('You aready created this schema, seemingly')
      schemas = personalize.list_schemas(maxResults=100)['schemas']
      for schema_response in schemas:
          if schema_response['name'] == "personalize-immersion-day-retail-schema-interactions":
              interactions_schema_arn = schema_response['schemaArn']
              print(f"Using existing schema: {interactions_schema_arn}")
  \<close>
  The loop has no \<^verbatim>\<open>break\<close>: the last matching summary wins, and with no match the variable
  keeps what it held. The schema document is a constant of the cell and left out of the
  request. The three cells differ in the names and in the order of the two statements
  after the call; the users cell creates \<^verbatim>\<open>"rpersonalize-immersion-day-retail-schema-users"\<close>
  and looks for \<^verbatim>\<open>"personalize-immersion-day-retail-schema-users"\<close>.
\<close>

fun for_schemas :: "string \<Rightarrow> string \<Rightarrow> (string \<times> arn) list \<Rightarrow> stmt" where
  "for_schemas lookup_name var [] s = s"
| "for_schemas lookup_name var (schema_response # schemas) s =
     for_schemas lookup_name var schemas
       (if fst schema_response = lookup_name
        then run [assign var (snd schema_response),
                  print_line (Using_existing (snd schema_response))] s
        else s)"

definition lookup_schema :: "world \<Rightarrow> string \<Rightarrow> string \<Rightarrow> stmt" where
  "lookup_schema w lookup_name var =
     run [print_line Already_created,
          call_list_schemas w 100
            (\<lambda>r. case r of Inl e \<Rightarrow> raise (ClientError e)
                          | Inr schemas \<Rightarrow> for_schemas lookup_name var schemas)]"

definition try_create_schema :: "world \<Rightarrow> string \<Rightarrow> (arn \<Rightarrow> stmt) \<Rightarrow> stmt \<Rightarrow> stmt" where
  "try_create_schema w name body handler =
     call w (Create_schema name)
       (\<lambda>r. case r of
               Inr arn \<Rightarrow> body arn
             | Inl ResourceAlreadyExistsException \<Rightarrow> handler
             | Inl e \<Rightarrow> raise (ClientError e))"

definition interactions_schema_cell :: "world \<Rightarrow> stmt" where
  "interactions_schema_cell w =
     try_create_schema w ''personalize-immersion-day-retail-schema-interactions''
       (\<lambda>arn. run [print_line (Json_dump arn), assign ''interactions_schema_arn'' arn])
       (lookup_schema w ''personalize-immersion-day-retail-schema-interactions''
          ''interactions_schema_arn'')"

definition items_schema_cell :: "world \<Rightarrow> stmt" where
  "items_schema_cell w =
     try_create_schema w ''personalize-immersion-day-retail-schema-items''
       (\<lambda>arn. run [assign ''items_schema_arn'' arn, print_line (Json_dump arn)])
       (lookup_schema w ''personalize-immersion-day-retail-schema-items'' ''items_schema_arn'')"

definition users_schema_cell :: "world \<Rightarrow> stmt" where
  "users_schema_cell w =
     try_create_schema w ''rpersonalize-immersion-day-retail-schema-users''
       (\<lambda>arn. run [print_line (Json_dump arn), assign ''users_schema_arn'' arn])
       (lookup_schema w ''personalize-immersion-day-retail-schema-users'' ''users_schema_arn'')"

subsection \<open>Dataset group and datasets\<close>


definition store_status :: "string option \<Rightarrow> stmt" where
  "store_status st s = (case st of None \<Rightarrow> s | Some v \<Rightarrow> assign ''status'' v s)"







subsection \<open>Bucket, uploads, policy and role\<close>






subsection \<open>Import jobs\<close>





text \<open>
  The cell of a multi-resource polling loop: the list literal reads the three variables
  in order. The working list is not kept after the cell. The loop body assigns the
  status it reads to the global \<^verbatim>\<open>status\<close> at every describe call, so after the cell the
  variable holds the status read by the last describe call of the loop: \<open>read_status w e\<close>
  is the status that a describe call \<open>e\<close> read (with the kind and the identifier), and
  \<open>last_status\<close> goes through the trace of the loop.
\<close>

definition read_status :: "world \<Rightarrow> event \<Rightarrow> (kind \<times> arn \<times> string) option" where
  "read_status w e =
     (case e of
        Call t r \<Rightarrow>
          (case r of Describe k a \<Rightarrow> Some (k, a, status (nested (describe w k a t)))
                   | _ \<Rightarrow> None)
      | _ \<Rightarrow> None)"




subsection \<open>The data layer\<close>




subsection \<open>The training layer\<close>

















text \<open>
  Readings of a trace: the identifiers of its describe calls, in order, the identifiers
  an outcome line (\<^verbatim>\<open>successfully completed\<close> or \<^verbatim>\<open>failed\<close>) was printed for, and the
  printed lines.
\<close>

fun printed :: "event list \<Rightarrow> line list" where
  "printed [] = []"
| "printed (Print l # es) = l # printed es"
| "printed (e # es) = printed es"

fun described :: "event list \<Rightarrow> arn list" where
  "described [] = []"
| "described (Call t (Describe k a) # es) = a # described es"
| "described (e # es) = described es"

fun outcomes :: "event list \<Rightarrow> arn list" where
  "outcomes [] = []"
| "outcomes (Print (Completed k a) # es) = a # outcomes es"
| "outcomes (Print (Failed_line k a) # es) = a # outcomes es"
| "outcomes (e # es) = outcomes es"

text \<open>
  The outcome lines of a trace by what they say: the identifiers reported as completed
  and those reported as failed. \<open>verdict e\<close> is the status an outcome line \<open>e\<close> stands for
  (\<open>read_status w e\<close>, above, the status a describe call \<open>e\<close> read). \<open>explained w prev es\<close>: every outcome line in \<open>es\<close> comes directly after the describe
  call on its identifier that read the status the line reports (\<open>prev\<close> is the event
  before \<open>es\<close>, if any).
\<close>

fun completed :: "event list \<Rightarrow> arn list" where
  "completed [] = []"
| "completed (Print (Completed k a) # es) = a # completed es"
| "completed (e # es) = completed es"

fun failed :: "event list \<Rightarrow> arn list" where
  "failed [] = []"
| "failed (Print (Failed_line k a) # es) = a # failed es"
| "failed (e # es) = failed es"

definition verdict :: "event \<Rightarrow> (kind \<times> arn \<times> string) option" where
  "verdict e =
     (case e of
        Print l \<Rightarrow>
          (case l of Completed k a \<Rightarrow> Some (k, a, ''ACTIVE'')
                   | Failed_line k a \<Rightarrow> Some (k, a, ''CREATE FAILED'')
                   | _ \<Rightarrow> None)
      | _ \<Rightarrow> None)"

fun explained :: "world \<Rightarrow> event option \<Rightarrow> event list \<Rightarrow> bool" where
  "explained w prev [] = True"
| "explained w prev (e # es) =
     ((case verdict e of
         None \<Rightarrow> True
       | Some v \<Rightarrow> (case prev of None \<Rightarrow> False | Some p \<Rightarrow> read_status w p = Some v))
      \<and> explained w (Some e) es)"

text \<open>
  A service for examples: job \<open>A\<close> is still being created, \<open>B\<close> is active, \<open>C\<close> has failed
  (reason in the nested record, where the service puts it), whatever the time.
\<close>

definition mixed_world :: world where
  "mixed_world =
     \<lparr>latency = 0,
      describe = (\<lambda>k a t.
        if a = ''A'' then \<lparr>nested = \<lparr>status = ''CREATE IN_PROGRESS'', failureReason = None\<rparr>,
                            top_failureReason = None\<rparr>
        else if a = ''B'' then \<lparr>nested = \<lparr>status = ''ACTIVE'', failureReason = None\<rparr>,
                                 top_failureReason = None\<rparr>
        else \<lparr>nested = \<lparr>status = ''CREATE FAILED'', failureReason = Some ''schema mismatch''\<rparr>,
               top_failureReason = None\<rparr>),
      respond = (\<lambda>r t. Inr []),
      listing = (\<lambda>n t. Inr [])\<rparr>"

text \<open>
  The scenario of the specification: import jobs \<open>A\<close> and \<open>B\<close> are active and \<open>C\<close> has
  failed with the reason \<^verbatim>\<open>schema mismatch\<close> at the first poll. The response has the shape
  \<^verbatim>\<open>describe_dataset_import_job\<close> gives it: status and failure reason inside the
  \<^verbatim>\<open>"datasetImportJob"\<close> record, no \<^verbatim>\<open>failureReason\<close> key at the top level.
\<close>

definition scenario_world :: world where
  "scenario_world =
     \<lparr>latency = 0,
      describe = (\<lambda>k a t.
        if a = ''C''
        then \<lparr>nested = \<lparr>status = ''CREATE FAILED'', failureReason = Some ''schema mismatch''\<rparr>,
              top_failureReason = None\<rparr>
        else \<lparr>nested = \<lparr>status = ''ACTIVE'', failureReason = None\<rparr>,
              top_failureReason = None\<rparr>),
      respond = (\<lambda>r t. Inr []),
      listing = (\<lambda>n t. Inr [])\<rparr>"

text \<open>The describe response of a failed resource, the reason \<open>r\<close> in the nested record.\<close>

definition nested_failure :: "string \<Rightarrow> describe_response" where
  "nested_failure r =
     \<lparr>nested = \<lparr>status = ''CREATE FAILED'', failureReason = Some r\<rparr>,
      top_failureReason = None\<rparr>"

text \<open>A service whose resources are all being created before time \<open>T\<close> and active from \<open>T\<close> on.\<close>

definition ready_at :: "nat \<Rightarrow> world" where
  "ready_at T =
     \<lparr>latency = 0,
      describe = (\<lambda>k a t.
        if t < T
        then \<lparr>nested = \<lparr>status = ''CREATE IN_PROGRESS'', failureReason = None\<rparr>,
              top_failureReason = None\<rparr>
        else \<lparr>nested = \<lparr>status = ''ACTIVE'', failureReason = None\<rparr>,
              top_failureReason = None\<rparr>),
      respond = (\<lambda>r t. Inr []),
      listing = (\<lambda>n t. Inr [])\<rparr>"

text \<open>
  Predicates on traces and states used in the proofs about whole runs.
  \<^item> \<open>stuck k x s\<close>: \<open>x\<close> is pending and nothing in the trace reports it or the end of the loop.
  \<^item> \<open>after p es\<close>: the working list \<open>p\<close> after the removals in \<open>es\<close>.
  \<^item> \<open>follows p es\<close>: every describe call and every removal in \<open>es\<close> is on an identifier
    that is in the working list at that moment, the list being \<open>p\<close> at the start.
  \<^item> \<open>reaction w k x t\<close>: what the loop body does after the describe call on \<open>x\<close> at \<open>t\<close>.
  \<^item> \<open>reacts w es\<close>: every describe call in \<open>es\<close> is followed at once by its reaction.
  \<^item> \<open>seg w s s'\<close>: \<open>s'\<close> extends the trace of \<open>s\<close> by events that have these properties and
    lead from the working list of \<open>s\<close> to that of \<open>s'\<close>.
\<close>

definition stuck :: "kind \<Rightarrow> arn \<Rightarrow> poll_state \<Rightarrow> bool" where
  "stuck k x s \<longleftrightarrow>
     x \<in> set (pending s) \<and> x \<notin> set (outcomes (trace s)) \<and> Remove x \<notin> set (trace s)
     \<and> Print (All_ended k) \<notin> set (trace s)"

fun after :: "arn list \<Rightarrow> event list \<Rightarrow> arn list" where
  "after p [] = p"
| "after p (Remove x # es) = after (remove1 x p) es"
| "after p (e # es) = after p es"

fun follows :: "arn list \<Rightarrow> event list \<Rightarrow> bool" where
  "follows p [] = True"
| "follows p (Call t (Describe k x) # es) = (x \<in> set p \<and> follows p es)"
| "follows p (Remove x # es) = (x \<in> set p \<and> follows (remove1 x p) es)"
| "follows p (e # es) = follows p es"

definition reaction :: "world \<Rightarrow> kind \<Rightarrow> arn \<Rightarrow> nat \<Rightarrow> event list" where
  "reaction w k x t =
     (let response = describe w k x t; st = status (nested response)
      in if st = ''ACTIVE'' then [Print (Completed k x), Remove x]
         else if st = ''CREATE FAILED''
         then Print (Failed_line k x) # reason_lines (top_failureReason response) @ [Remove x]
         else [])"

fun reacts :: "world \<Rightarrow> event list \<Rightarrow> bool" where
  "reacts w [] = True"
| "reacts w (Call t (Describe k x) # es) =
     (take (length (reaction w k x t)) es = reaction w k x t \<and> reacts w es)"
| "reacts w (e # es) = reacts w es"

definition seg :: "world \<Rightarrow> poll_state \<Rightarrow> poll_state \<Rightarrow> bool" where
  "seg w s s' \<longleftrightarrow>
     (\<exists>ext. trace s' = trace s @ ext \<and> follows (pending s) ext
        \<and> after (pending s) ext = pending s' \<and> reacts w ext)"


text \<open>
  Services for examples. In \<open>created_once\<close> a schema is created by a request at time 0 and
  exists afterwards: later requests for it raise ResourceAlreadyExistsException, and
  \<^verbatim>\<open>list_schemas\<close> returns the three schemas under the names they were created with. In
  \<open>already_there\<close> every resource exists already. In \<open>happy_world\<close> every call succeeds and
  every resource is active at once; \<open>answer\<close> is the identifier it returns for a request.
\<close>

definition created_once :: world where
  "created_once =
     \<lparr>latency = 1,
      describe = (\<lambda>k a t. \<lparr>nested = \<lparr>status = ''ACTIVE'', failureReason = None\<rparr>,
                            top_failureReason = None\<rparr>),
      respond = (\<lambda>r t. case r of
          Create_schema name \<Rightarrow>
            if t = 0 then Inr (''schema/'' @ name) else Inl ResourceAlreadyExistsException
        | _ \<Rightarrow> Inr []),
      listing = (\<lambda>n t. Inr (take n
         [(''personalize-immersion-day-retail-schema-interactions'',
           ''schema/personalize-immersion-day-retail-schema-interactions''),
          (''personalize-immersion-day-retail-schema-items'',
           ''schema/personalize-immersion-day-retail-schema-items''),
          (''rpersonalize-immersion-day-retail-schema-users'',
           ''schema/rpersonalize-immersion-day-retail-schema-users'')]))\<rparr>"




section \<open>Describing before using\<close>






text \<open>
  Another reading follows each entity from its creation. \<open>creates r\<close> is the kind of
  entity that the notebooks poll and the request \<open>r\<close> creates (the datasets, which they do
  not poll, are left out); \<open>needs r\<close> are the polled entities a creation request depends on.
  \<open>max_wait k\<close> is the maximum wait of the loop that polls the kind \<open>k\<close>, and
  \<open>round_time w k\<close> the duration of one round of it: a describe call and the sleep of 15
  seconds for the single-resource loops, three describe calls and the sleep of 60 seconds
  for the others.
  \<^item> \<open>final_poll w k a t t'\<close>: a describe call on \<open>a\<close> at \<open>t'\<close> ends the polling of an entity
    created at \<open>t\<close>: it reads a terminal status, or the maximum wait counted from \<open>t\<close> is
    over but for one round of the loop.
  \<^item> \<open>waited fin w k a t es\<close> reads the events after the creation: no creation call that
    needs the entity comes before a final describe call on it; when the trace ends
    without one, the answer is \<open>fin\<close>.
  \<^item> \<open>settled h w es\<close>: this holds for every creation call in \<open>es\<close> that returned an
    identifier (\<open>h\<close> says whether the polling of that entity may still be outstanding at
    the end of \<open>es\<close>).
  \<^item> \<open>unused_before_polled\<close>: no entity is used before its final describe call;
    \<open>polled_after_creation\<close>: and every entity created has had one.
\<close>

fun creates :: "request \<Rightarrow> kind option" where
  "creates (Create_dataset_group name) = Some DatasetGroup"
| "creates (Create_dataset_import_job name dataset_arn location role_arn) = Some DatasetImportJob"
| "creates (Create_solution_version solution_arn) = Some SolutionVersion"
| "creates (Create_campaign name solution_version_arn tps) = Some Campaign"
| "creates (Create_filter name dataset_group_arn expression) = Some Filter"
| "creates r = None"

fun needs :: "request \<Rightarrow> (kind \<times> arn) list" where
  "needs (Create_dataset name ty dataset_group_arn schema_arn) = [(DatasetGroup, dataset_group_arn)]"
| "needs (Create_solution name dataset_group_arn recipe_arn) = [(DatasetGroup, dataset_group_arn)]"
| "needs (Create_campaign name solution_version_arn tps) = [(SolutionVersion, solution_version_arn)]"
| "needs (Create_filter name dataset_group_arn expression) = [(DatasetGroup, dataset_group_arn)]"
| "needs r = []"

fun max_wait :: "kind \<Rightarrow> nat" where
  "max_wait Filter = 60 * 60"
| "max_wait k = 3 * 60 * 60"

fun round_time :: "world \<Rightarrow> kind \<Rightarrow> nat" where
  "round_time w DatasetGroup = latency w + 15"
| "round_time w Filter = latency w + 15"
| "round_time w k = 3 * latency w + 60"

definition final_poll :: "world \<Rightarrow> kind \<Rightarrow> arn \<Rightarrow> nat \<Rightarrow> nat \<Rightarrow> bool" where
  "final_poll w k a t t' \<longleftrightarrow>
     terminal (status (nested (describe w k a t'))) \<or> t + max_wait k \<le> t' + round_time w k"

fun waited :: "bool \<Rightarrow> world \<Rightarrow> kind \<Rightarrow> arn \<Rightarrow> nat \<Rightarrow> event list \<Rightarrow> bool" where
  "waited fin w k a t [] = fin"
| "waited fin w k a t (Call t' r # es) =
     ((r = Describe k a \<and> final_poll w k a t t')
      \<or> ((k, a) \<notin> set (needs r) \<and> waited fin w k a t es))"
| "waited fin w k a t (e # es) = waited fin w k a t es"

fun settled :: "(kind \<Rightarrow> arn \<Rightarrow> nat \<Rightarrow> bool) \<Rightarrow> world \<Rightarrow> event list \<Rightarrow> bool" where
  "settled h w [] = True"
| "settled h w (Call t r # es) =
     ((case creates r of
         None \<Rightarrow> True
       | Some k \<Rightarrow> (case respond w r t of Inl e \<Rightarrow> True | Inr a \<Rightarrow> waited (h k a t) w k a t es))
      \<and> settled h w es)"
| "settled h w (e # es) = settled h w es"












text \<open>
  Predicates of the proofs about the polling of the entities created.
  \<^item> \<open>held U vs k a\<close>: a variable of \<open>U\<close> (a set of variables with the kind of entity they
    hold) holds the identifier \<open>a\<close> of kind \<open>k\<close>.
  \<^item> \<open>owes w U s\<close>: in the trace of \<open>s\<close> every entity created has been waited for, or it was
    created before now, has not been used, and is held by a variable of \<open>U\<close>; after an
    exception only that no entity has been used before its final describe call.
  \<^item> \<open>moves w U U' c\<close>: the statement \<open>c\<close> leads from \<open>owes w U\<close> to \<open>owes w U'\<close>;
    \<open>leads w U U' cs\<close>: so does running the cells \<open>cs\<close>.
  \<^item> \<open>apart U r\<close>: the request \<open>r\<close> needs no entity of a kind that a variable of \<open>U\<close> holds.
  \<^item> \<open>polled w k x M sl es\<close>: \<open>es\<close> has a describe call on \<open>x\<close> that reads a terminal status
    or is made at \<open>M - sl\<close> or later.
\<close>

definition held :: "(string \<times> kind) set \<Rightarrow> (string \<Rightarrow> string option) \<Rightarrow> kind \<Rightarrow> arn \<Rightarrow> bool" where
  "held U vs k a \<longleftrightarrow> (\<exists>x. (x, k) \<in> U \<and> vs x = Some a)"

definition owes :: "world \<Rightarrow> (string \<times> kind) set \<Rightarrow> notebook \<Rightarrow> bool" where
  "owes w U s \<longleftrightarrow>
     settled (\<lambda>k a t. raised s \<noteq> None \<or> (t \<le> now s \<and> held U (vars s) k a)) w (trace s)"

definition moves :: "world \<Rightarrow> (string \<times> kind) set \<Rightarrow> (string \<times> kind) set \<Rightarrow> stmt \<Rightarrow> bool" where
  "moves w U U' c \<longleftrightarrow> (\<forall>s. raised s = None \<and> owes w U s \<longrightarrow> owes w U' (c s))"

definition leads :: "world \<Rightarrow> (string \<times> kind) set \<Rightarrow> (string \<times> kind) set \<Rightarrow> stmt list \<Rightarrow> bool" where
  "leads w U U' cs \<longleftrightarrow> (\<forall>s. owes w U s \<longrightarrow> owes w U' (run cs s))"



section \<open>One round of a polling loop\<close>

lemma poll_all_timeout: "\<not> now s < max_time \<Longrightarrow> poll_all w k max_time s = s"
  by (subst poll_all.simps) simp


lemma described_append: "described (es @ fs) = described es @ described fs"
  by (induction es rule: described.induct) simp_all

lemma outcomes_append: "outcomes (es @ fs) = outcomes es @ outcomes fs"
  by (induction es rule: outcomes.induct) simp_all

lemma described_reason_lines: "described (reason_lines r) = []"
  by (cases r) simp_all

lemma outcomes_reason_lines: "outcomes (reason_lines r) = []"
  by (cases r) simp_all

lemma described_poll_body:
  "described (trace (poll_body w k x s)) = described (trace s) @ [x]"
  by (simp add: poll_body_def Let_def described_append described_reason_lines)

lemma pending_poll_body:
  "pending (poll_body w k x s) =
     (if terminal (status (nested (describe w k x (now s))))
      then remove1 x (pending s) else pending s)"
  by (simp add: poll_body_def Let_def terminal_def)

lemma outcomes_poll_body:
  "outcomes (trace (poll_body w k x s)) =
     outcomes (trace s) @
       (if terminal (status (nested (describe w k x (now s)))) then [x] else [])"
  by (simp add: poll_body_def Let_def terminal_def outcomes_append outcomes_reason_lines)

text \<open>
  Removing the element read at index \<open>n\<close> deletes its first occurrence, at an index \<open>\<le> n\<close>:
  the elements below index \<open>n\<close> afterwards are those up to index \<open>n\<close> before, less that one.
\<close>

lemma mset_take_remove1_nth:
  "n < length xs \<Longrightarrow>
   mset (take n (remove1 (xs ! n) xs)) + {#xs ! n#} = mset (take (Suc n) xs)"
proof (induction xs arbitrary: n)
  case Nil
  then show ?case by simp
next
  case (Cons a xs)
  show ?case
  proof (cases n)
    case 0
    then show ?thesis by simp
  next
    case (Suc m)
    with Cons.prems have m: "m < length xs" by simp
    show ?thesis
    proof (cases "a = xs ! m")
      case True
      with Suc show ?thesis by simp
    next
      case False
      with Suc Cons.IH [OF m] show ?thesis by simp
    qed
  qed
qed

lemma remove1_nth_distinct:
  "distinct xs \<Longrightarrow> n < length xs \<Longrightarrow> remove1 (xs ! n) xs = take n xs @ drop (Suc n) xs"
proof (induction xs arbitrary: n)
  case Nil
  then show ?case by simp
next
  case (Cons a xs)
  show ?case
  proof (cases n)
    case 0
    then show ?thesis by simp
  next
    case (Suc m)
    with Cons.prems have "xs ! m \<in> set xs" by simp
    with Cons.prems have "a \<noteq> xs ! m" by auto
    with Cons Suc show ?thesis by simp
  qed
qed

lemma described_for_reversed:
  "n \<le> length (pending s) \<Longrightarrow>
   mset (described (trace (for_reversed w k n s))) =
     mset (described (trace s)) + mset (take n (pending s))"
proof (induction n arbitrary: s)
  case 0
  then show ?case by simp
next
  case (Suc n)
  let ?x = "pending s ! n"
  let ?s' = "poll_body w k ?x s"
  from Suc.prems have n: "n < length (pending s)" by simp
  have ln: "n \<le> length (pending ?s')"
    using n by (auto simp: pending_poll_body length_remove1)
  have tk: "mset (take n (pending ?s')) + {#?x#} = mset (take (Suc n) (pending s))"
  proof (cases "terminal (status (nested (describe w k ?x (now s))))")
    case True
    then show ?thesis using mset_take_remove1_nth [OF n] by (simp add: pending_poll_body)
  next
    case False
    then show ?thesis using n by (simp add: pending_poll_body take_Suc_conv_app_nth)
  qed
  have "mset (described (trace (for_reversed w k (Suc n) s))) =
        mset (described (trace (for_reversed w k n ?s')))"
    using n by simp
  also have "\<dots> = mset (described (trace ?s')) + mset (take n (pending ?s'))"
    using Suc.IH [OF ln] .
  also have "\<dots> = mset (described (trace s)) + (mset (take n (pending ?s')) + {#?x#})"
    by (simp add: described_poll_body)
  finally show ?case by (simp only: tk)
qed

text \<open>
  On a list without repetitions the live reverse iterator visits what a loop over a
  reversed snapshot of the list would visit: removing the element just read leaves the
  elements below its index in place.
\<close>

lemma for_reversed_fold:
  "distinct (pending s) \<Longrightarrow> n \<le> length (pending s) \<Longrightarrow>
   for_reversed w k n s = fold (poll_body w k) (rev (take n (pending s))) s"
proof (induction n arbitrary: s)
  case 0
  then show ?case by simp
next
  case (Suc n)
  let ?x = "pending s ! n"
  let ?s' = "poll_body w k ?x s"
  from Suc.prems have n: "n < length (pending s)" by simp
  have rm: "remove1 ?x (pending s) = take n (pending s) @ drop (Suc n) (pending s)"
    using remove1_nth_distinct [OF Suc.prems(1) n] .
  have tk: "take n (pending ?s') = take n (pending s)"
    using n by (simp add: pending_poll_body rm)
  have ds: "distinct (pending ?s')"
    using Suc.prems(1) by (simp add: pending_poll_body)
  have ln: "n \<le> length (pending ?s')"
    using n by (auto simp: pending_poll_body length_remove1)
  have "for_reversed w k (Suc n) s = for_reversed w k n ?s'"
    using n by simp
  also have "\<dots> = fold (poll_body w k) (rev (take n (pending ?s'))) ?s'"
    using Suc.IH [OF ds ln] .
  also have "\<dots> = fold (poll_body w k) (rev (take (Suc n) (pending s))) s"
    using n by (simp add: tk take_Suc_conv_app_nth)
  finally show ?case .
qed

lemma poll_round_fold:
  "distinct (pending s) \<Longrightarrow>
   poll_round w k s = fold (poll_body w k) (rev (pending s)) (s\<lparr>rounds := Suc (rounds s)\<rparr>)"
  using for_reversed_fold [of "s\<lparr>rounds := Suc (rounds s)\<rparr>" "length (pending s)" w k]
  by (simp add: poll_round_def)

lemma described_fold:
  "described (trace (fold (poll_body w k) xs s)) = described (trace s) @ xs"
  by (induction xs arbitrary: s) (simp_all add: described_poll_body)

text \<open>
  Claim C4. In a round of a multi-resource polling loop, which removes terminal
  identifiers from the list it is iterating over through \<^verbatim>\<open>reversed()\<close>, every identifier
  pending at the start of the round is described exactly once, whatever the statuses
  are: as multisets the describe calls of the round are the pending list (so an entry is
  neither skipped nor described twice, even in a list with repetitions), and on a list of
  distinct identifiers the calls are the list in reverse order.
\<close>

theorem poll_round_describes_each_once:
  "mset (described (trace (poll_round w k s))) =
     mset (described (trace s)) + mset (pending s)
   \<and> (distinct (pending s) \<longrightarrow>
        described (trace (poll_round w k s)) = described (trace s) @ rev (pending s))"
proof
  show "mset (described (trace (poll_round w k s))) =
          mset (described (trace s)) + mset (pending s)"
    using described_for_reversed [of "length (pending s)" "s\<lparr>rounds := Suc (rounds s)\<rparr>" w k]
    by (simp add: poll_round_def)
next
  show "distinct (pending s) \<longrightarrow>
          described (trace (poll_round w k s)) = described (trace s) @ rev (pending s)"
    by (simp add: poll_round_fold described_fold)
qed

theorem poll_round_describes_each_once_witness:
  "distinct [''A'', ''B'', ''C''] \<and>
   described (trace (poll_round mixed_world DatasetImportJob
      \<lparr>now = 0, trace = [], pending = [''A'', ''B'', ''C''], rounds = 0\<rparr>)) = [''C'', ''B'', ''A'']"
  using poll_round_describes_each_once [of mixed_world DatasetImportJob
      "\<lparr>now = 0, trace = [], pending = [''A'', ''B'', ''C''], rounds = 0\<rparr>"]
  by simp

section \<open>The scenario of the specification and the failure reason\<close>

lemma printed_append: "printed (es @ fs) = printed es @ printed fs"
  by (induction es rule: printed.induct) simp_all

text \<open>
  Claim C1. Three import jobs \<open>A\<close>, \<open>B\<close>, \<open>C\<close> are pending; at the first poll \<open>A\<close> and \<open>B\<close> are
  ACTIVE and \<open>C\<close> is CREATE FAILED with the reason \<^verbatim>\<open>schema mismatch\<close>. The loop ends after one
  iteration of the \<^verbatim>\<open>while\<close> body with an empty working list, having printed that \<open>C\<close>
  failed and that \<open>B\<close> and \<open>A\<close> completed; the reason of the failure of \<open>C\<close> is not among the
  printed lines.
\<close>

theorem import_job_scenario:
  "rounds (poll_cell scenario_world DatasetImportJob [''A'', ''B'', ''C''] t0) = 1
   \<and> pending (poll_cell scenario_world DatasetImportJob [''A'', ''B'', ''C''] t0) = []
   \<and> map render (printed (trace
        (poll_cell scenario_world DatasetImportJob [''A'', ''B'', ''C''] t0))) =
      [''Import job C failed'', ''Import job B successfully completed'',
       ''Import job A successfully completed'', ''All import jobs have ended'']"
  by (simp add: poll_cell_def poll_all.simps poll_round_def poll_body_def scenario_world_def
      Let_def numeral_3_eq_3)

text \<open>
  Claim C5. A describe response with status CREATE FAILED carries its failure reason in
  the nested resource record. The loop body reads \<^verbatim>\<open>failureReason\<close> at the top level of
  the response instead, so for such a response it prints the \<^verbatim>\<open>failed\<close> line and no
  \<^verbatim>\<open>Reason:\<close> line, for every kind of resource.
\<close>

theorem nested_reason_not_printed:
  "status (nested (nested_failure r)) = ''CREATE FAILED''
   \<and> failureReason (nested (nested_failure r)) = Some r
   \<and> printed (trace (poll_body (w\<lparr>describe := \<lambda>k a t. nested_failure r\<rparr>) k x s)) =
       printed (trace s) @ [Failed_line k x]"
  by (simp add: poll_body_def nested_failure_def Let_def printed_append)

text \<open>A reason at the top level of the response, where the body looks for it, is printed.\<close>

lemma top_reason_printed:
  "status (nested (describe w k x (now s))) = ''CREATE FAILED'' \<Longrightarrow>
   top_failureReason (describe w k x (now s)) = Some r \<Longrightarrow> r \<noteq> [] \<Longrightarrow>
   printed (trace (poll_body w k x s)) = printed (trace s) @ [Failed_line k x, Reason r]"
  by (simp add: poll_body_def Let_def printed_append)

section \<open>Identifiers that never become terminal\<close>

lemma set_reason_lines: "e \<in> set (reason_lines r) \<Longrightarrow> \<exists>t. e = Print (Reason t)"
  by (cases r) (auto split: if_splits)

lemma stuck_poll_body:
  assumes "\<not> terminal (status (nested (describe w k x (now s))))" and "stuck k x s"
  shows "stuck k x (poll_body w k y s)"
proof (cases "y = x")
  case True
  with assms show ?thesis
    by (simp add: stuck_def poll_body_def Let_def terminal_def outcomes_append)
next
  case False
  with assms(2) show ?thesis
    by (auto simp: stuck_def poll_body_def Let_def outcomes_append outcomes_reason_lines
        dest: set_reason_lines)
qed

lemma stuck_for_reversed:
  "(\<forall>t < M + n * latency w. \<not> terminal (status (nested (describe w k x t)))) \<Longrightarrow>
   now s < M \<Longrightarrow> stuck k x s \<Longrightarrow> stuck k x (for_reversed w k n s)"
proof (induction n arbitrary: s M)
  case 0
  then show ?case by simp
next
  case (Suc n)
  let ?s' = "poll_body w k (pending s ! n) s"
  show ?case
  proof (cases "n < length (pending s)")
    case False
    with Suc.prems show ?thesis by simp
  next
    case True
    have "now s < M + Suc n * latency w" using Suc.prems(2) by simp
    with Suc.prems(1) have "\<not> terminal (status (nested (describe w k x (now s))))" by blast
    then have st: "stuck k x ?s'" using Suc.prems(3) by (rule stuck_poll_body)
    have nw: "now ?s' < M + latency w"
      using Suc.prems(2) by (simp add: poll_body_def Let_def)
    have "\<forall>t < (M + latency w) + n * latency w. \<not> terminal (status (nested (describe w k x t)))"
      using Suc.prems(1) by (simp add: add.assoc add.commute)
    from Suc.IH [OF this nw st] True show ?thesis by simp
  qed
qed

lemma length_pending_for_reversed:
  "length (pending (for_reversed w k n s)) \<le> length (pending s)"
proof (induction n arbitrary: s)
  case 0
  then show ?case by simp
next
  case (Suc n)
  have "length (pending (poll_body w k (pending s ! n) s)) \<le> length (pending s)"
    by (simp add: pending_poll_body length_remove1)
  with Suc.IH [of "poll_body w k (pending s ! n) s"] show ?case by simp
qed

lemma stuck_poll_round:
  assumes "\<forall>t < M + length (pending s) * latency w. \<not> terminal (status (nested (describe w k x t)))"
    and "now s < M" and "stuck k x s"
  shows "stuck k x (poll_round w k s)"
proof -
  have "stuck k x (s\<lparr>rounds := Suc (rounds s)\<rparr>)" using assms(3) by (simp add: stuck_def)
  with assms(1,2) show ?thesis
    unfolding poll_round_def
    using stuck_for_reversed [of M "length (pending s)" w k x "s\<lparr>rounds := Suc (rounds s)\<rparr>"]
    by simp
qed

lemma length_pending_poll_round: "length (pending (poll_round w k s)) \<le> length (pending s)"
  using length_pending_for_reversed [of w k "length (pending s)" "s\<lparr>rounds := Suc (rounds s)\<rparr>"]
  by (simp add: poll_round_def)

lemma stuck_poll_all:
  "(\<forall>t < max_time + length (pending s) * latency w.
       \<not> terminal (status (nested (describe w k x t)))) \<Longrightarrow>
   stuck k x s \<Longrightarrow>
   stuck k x (poll_all w k max_time s) \<and> max_time \<le> now (poll_all w k max_time s)
   \<and> (now s < max_time \<longrightarrow>
        (\<exists>es. trace (poll_all w k max_time s) = es @ [Print (Still_in_progress k), Sleep 60]))"
proof (induction w k max_time s rule: poll_all.induct)
  case (1 w k max_time s)
  show ?case
  proof (cases "now s < max_time")
    case False
    with "1.prems" show ?thesis by (simp add: poll_all_timeout)
  next
    case True
    let ?s1 = "poll_round w k s"
    let ?s2 = "?s1\<lparr>trace := trace ?s1 @ [Print (Still_in_progress k), Sleep 60],
                    now := now ?s1 + 60\<rparr>"
    have s1: "stuck k x ?s1" using "1.prems" True by (intro stuck_poll_round)
    then have ne: "length (pending ?s1) > 0" by (auto simp: stuck_def)
    have s2: "stuck k x ?s2" using s1 by (simp add: stuck_def outcomes_append)
    have le: "max_time + length (pending ?s2) * latency w
                \<le> max_time + length (pending s) * latency w"
      using length_pending_poll_round [of w k s] by simp
    have h: "\<forall>t < max_time + length (pending ?s2) * latency w.
           \<not> terminal (status (nested (describe w k x t)))"
    proof (intro allI impI)
      fix t assume "t < max_time + length (pending ?s2) * latency w"
      then have "t < max_time + length (pending s) * latency w" using le by (rule less_le_trans)
      with "1.prems"(1) show "\<not> terminal (status (nested (describe w k x t)))" by blast
    qed
    have eq: "poll_all w k max_time s = poll_all w k max_time ?s2"
      using True ne by (subst poll_all.simps) (simp add: Let_def)
    note ih = "1.IH" [OF True refl ne h s2]
    have "\<exists>es. trace (poll_all w k max_time ?s2) = es @ [Print (Still_in_progress k), Sleep 60]"
    proof (cases "now ?s2 < max_time")
      case True
      with ih show ?thesis by blast
    next
      case False
      then have "poll_all w k max_time ?s2 = ?s2" by (rule poll_all_timeout)
      then show ?thesis by simp
    qed
    with ih show ?thesis by (simp only: eq) simp
  qed
qed





section \<open>The working list is conserved\<close>

lemma conserved_poll_body:
  "x \<in> set (pending s) \<Longrightarrow>
   mset (outcomes (trace (poll_body w k x s))) + mset (pending (poll_body w k x s)) =
   mset (outcomes (trace s)) + mset (pending s)"
  by (simp add: outcomes_poll_body pending_poll_body)

lemma conserved_for_reversed:
  "mset (outcomes (trace (for_reversed w k n s))) + mset (pending (for_reversed w k n s)) =
   mset (outcomes (trace s)) + mset (pending s)"
proof (induction n arbitrary: s)
  case 0
  then show ?case by simp
next
  case (Suc n)
  show ?case
  proof (cases "n < length (pending s)")
    case True
    then have "pending s ! n \<in> set (pending s)" by simp
    from conserved_poll_body [OF this, of w k] Suc.IH [of "poll_body w k (pending s ! n) s"] True
    show ?thesis by simp
  next
    case False
    then show ?thesis by simp
  qed
qed

lemma conserved_poll_round:
  "mset (outcomes (trace (poll_round w k s))) + mset (pending (poll_round w k s)) =
   mset (outcomes (trace s)) + mset (pending s)"
  using conserved_for_reversed [of w k "length (pending s)" "s\<lparr>rounds := Suc (rounds s)\<rparr>"]
  by (simp add: poll_round_def)

lemma conserved_poll_all:
  "mset (outcomes (trace (poll_all w k max_time s))) + mset (pending (poll_all w k max_time s)) =
   mset (outcomes (trace s)) + mset (pending s)"
proof (induction w k max_time s rule: poll_all.induct)
  case (1 w k max_time s)
  let ?s1 = "poll_round w k s"
  let ?s2 = "?s1\<lparr>trace := trace ?s1 @ [Print (Still_in_progress k), Sleep 60],
                  now := now ?s1 + 60\<rparr>"
  show ?case
  proof (cases "now s < max_time")
    case False
    then show ?thesis by (simp add: poll_all_timeout)
  next
    case True
    show ?thesis
    proof (cases "length (pending ?s1) > 0")
      case ne: True
      have eq: "poll_all w k max_time s = poll_all w k max_time ?s2"
        using True ne by (subst poll_all.simps) (simp add: Let_def)
      have "mset (outcomes (trace ?s2)) + mset (pending ?s2) =
            mset (outcomes (trace s)) + mset (pending s)"
        using conserved_poll_round [of w k s] by (simp add: outcomes_append)
      with "1.IH" [OF True refl ne] show ?thesis by (simp only: eq)
    next
      case False
      then have eq: "poll_all w k max_time s = ?s1\<lparr>trace := trace ?s1 @ [Print (All_ended k)]\<rparr>"
        using True by (subst poll_all.simps) (simp add: Let_def)
      show ?thesis
        using conserved_poll_round [of w k s] by (simp only: eq) (simp add: outcomes_append)
    qed
  qed
qed

lemma set_pending_poll_body: "set (pending (poll_body w k y s)) \<subseteq> set (pending s)"
  using set_remove1_subset [of y "pending s"] by (auto simp: pending_poll_body)

lemma set_pending_for_reversed: "set (pending (for_reversed w k n s)) \<subseteq> set (pending s)"
proof (induction n arbitrary: s)
  case 0
  then show ?case by simp
next
  case (Suc n)
  from Suc.IH [of "poll_body w k (pending s ! n) s"] set_pending_poll_body [of w k "pending s ! n" s]
  show ?case by auto
qed

lemma set_pending_poll_round: "set (pending (poll_round w k s)) \<subseteq> set (pending s)"
  using set_pending_for_reversed [of w k "length (pending s)" "s\<lparr>rounds := Suc (rounds s)\<rparr>"]
  by (simp add: poll_round_def)

lemma now_for_reversed_le: "now (for_reversed w k n s) \<le> now s + n * latency w"
proof (induction n arbitrary: s)
  case 0
  then show ?case by simp
next
  case (Suc n)
  have "now (poll_body w k (pending s ! n) s) = now s + latency w"
    by (simp add: poll_body_def Let_def)
  with Suc.IH [of "poll_body w k (pending s ! n) s"] show ?case by simp
qed

lemma now_poll_round_le: "now (poll_round w k s) \<le> now s + length (pending s) * latency w"
  using now_for_reversed_le [of w k "length (pending s)" "s\<lparr>rounds := Suc (rounds s)\<rparr>"]
  by (simp add: poll_round_def)

lemma all_terminal_for_reversed:
  "(\<forall>x \<in> set (pending s). \<forall>t \<ge> now s. terminal (status (nested (describe w k x t)))) \<Longrightarrow>
   length (pending s) = n \<Longrightarrow> pending (for_reversed w k n s) = []"
proof (induction n arbitrary: s)
  case 0
  then show ?case by simp
next
  case (Suc n)
  let ?x = "pending s ! n"
  let ?s' = "poll_body w k ?x s"
  from Suc.prems(2) have n: "n < length (pending s)" by simp
  then have x: "?x \<in> set (pending s)" by simp
  with Suc.prems(1) have tx: "terminal (status (nested (describe w k ?x (now s))))" by blast
  have len: "length (pending ?s') = n"
    using tx x Suc.prems(2) by (simp add: pending_poll_body length_remove1)
  have "\<forall>x \<in> set (pending ?s'). \<forall>t \<ge> now ?s'. terminal (status (nested (describe w k x t)))"
  proof (intro ballI allI impI)
    fix y t assume y: "y \<in> set (pending ?s')" and t: "now ?s' \<le> t"
    from y set_pending_poll_body [of w k ?x s] have "y \<in> set (pending s)" by blast
    moreover from t now_poll_body [of s w k ?x] have "now s \<le> t" by simp
    ultimately show "terminal (status (nested (describe w k y t)))" using Suc.prems(1) by blast
  qed
  from Suc.IH [OF this len] n show ?case by simp
qed

lemma all_terminal_poll_round:
  "(\<forall>x \<in> set (pending s). \<forall>t \<ge> now s. terminal (status (nested (describe w k x t)))) \<Longrightarrow>
   pending (poll_round w k s) = []"
  using all_terminal_for_reversed [of "s\<lparr>rounds := Suc (rounds s)\<rparr>" w k "length (pending s)"]
  by (simp add: poll_round_def)

lemma poll_all_finishes:
  "(\<forall>x \<in> set (pending s). \<forall>t \<ge> T. terminal (status (nested (describe w k x t)))) \<Longrightarrow>
   now s < max_time \<Longrightarrow>
   T \<le> now s \<or> T + length (pending s) * latency w + 60 \<le> max_time \<Longrightarrow>
   pending (poll_all w k max_time s) = []
   \<and> (\<exists>es. trace (poll_all w k max_time s) = es @ [Print (All_ended k)])"
proof (induction w k max_time s rule: poll_all.induct)
  case (1 w k max_time s)
  let ?s1 = "poll_round w k s"
  let ?s2 = "?s1\<lparr>trace := trace ?s1 @ [Print (Still_in_progress k), Sleep 60],
                  now := now ?s1 + 60\<rparr>"
  note lt = \<open>now s < max_time\<close>
  show ?case
  proof (cases "length (pending ?s1) > 0")
    case False
    then have eq: "poll_all w k max_time s = ?s1\<lparr>trace := trace ?s1 @ [Print (All_ended k)]\<rparr>"
      using lt by (subst poll_all.simps) (simp add: Let_def)
    show ?thesis using False by (simp only: eq) simp
  next
    case ne: True
    have eq: "poll_all w k max_time s = poll_all w k max_time ?s2"
      using lt ne by (subst poll_all.simps) (simp add: Let_def)
    have early: "now s < T"
    proof (rule ccontr)
      assume "\<not> now s < T"
      then have "\<forall>x \<in> set (pending s). \<forall>t \<ge> now s. terminal (status (nested (describe w k x t)))"
        using "1.prems"(1) by auto
      then have "pending ?s1 = []" by (rule all_terminal_poll_round)
      with ne show False by simp
    qed
    have a: "\<forall>x \<in> set (pending ?s2). \<forall>t \<ge> T. terminal (status (nested (describe w k x t)))"
      using "1.prems"(1) set_pending_poll_round [of w k s] by auto
    from early "1.prems"(3) have room: "T + length (pending s) * latency w + 60 \<le> max_time"
      by simp
    have b: "now ?s2 < max_time"
      using now_poll_round_le [of w k s] early room by simp
    have "length (pending ?s2) * latency w \<le> length (pending s) * latency w"
      using length_pending_poll_round [of w k s] by simp
    then have "T + length (pending ?s2) * latency w + 60 \<le> max_time"
      using room by linarith
    then have c: "T \<le> now ?s2 \<or> T + length (pending ?s2) * latency w + 60 \<le> max_time"
      by (rule disjI2)
    from "1.IH" [OF lt refl ne a b c] show ?thesis by (simp only: eq)
  qed
qed

section \<open>A failed identifier is final\<close>

lemma after_append: "after p (es @ fs) = after (after p es) fs"
  by (induction p es rule: after.induct) simp_all

lemma follows_append: "follows p (es @ fs) \<longleftrightarrow> follows p es \<and> follows (after p es) fs"
  by (induction p es rule: follows.induct) simp_all

lemma take_prefix_append:
  assumes "take (length r) es = r"
  shows "take (length r) (es @ fs) = r"
proof -
  have "length (take (length r) es) = length r" using assms by simp
  then have "length r \<le> length es" by simp
  with assms show ?thesis by simp
qed

lemma reacts_append: "reacts w es \<Longrightarrow> reacts w fs \<Longrightarrow> reacts w (es @ fs)"
proof (induction w es rule: reacts.induct)
  case (2 w t k x es)
  then show ?case using take_prefix_append [of "reaction w k x t" es fs] by simp
qed simp_all

lemma reacts_suffix: "reacts w (es @ fs) \<Longrightarrow> reacts w fs"
  by (induction w es rule: reacts.induct) simp_all

lemma distinct_after: "distinct p \<Longrightarrow> distinct (after p es)"
  by (induction p es rule: after.induct) simp_all

lemma set_after: "set (after p es) \<subseteq> set p"
proof (induction p es rule: after.induct)
  case (2 p x es)
  then show ?case using set_remove1_subset [of x p] by auto
qed simp_all

lemma absent_stays:
  "x \<notin> set p \<Longrightarrow> follows p es \<Longrightarrow> x \<notin> set (described es) \<and> Remove x \<notin> set es"
proof (induction p es rule: follows.induct)
  case (3 p y es)
  then show ?case using set_remove1_subset [of y p] by auto
qed auto

lemma removed_gone:
  assumes "distinct p" and "follows p es" and "Remove x \<in> set es"
  shows "x \<notin> set (after p es)"
proof -
  from assms(3) obtain a b where es: "es = a @ Remove x # b" by (auto dest: split_list)
  have d: "distinct (after p a)" using assms(1) by (rule distinct_after)
  then have "x \<notin> set (remove1 x (after p a))" by simp
  moreover have "set (after (remove1 x (after p a)) b) \<subseteq> set (remove1 x (after p a))"
    by (rule set_after)
  ultimately show ?thesis by (auto simp: es after_append)
qed

lemma after_reason_only: "after p (reason_lines r) = p"
  by (cases r) simp_all

lemma follows_reason_only: "follows p (reason_lines r)"
  by (cases r) simp_all

lemma after_reason_lines: "after p (reason_lines r @ es) = after p es"
  by (cases r) simp_all

lemma follows_reason_lines: "follows p (reason_lines r @ es) = follows p es"
  by (cases r) simp_all

lemma reacts_reason_lines: "reacts w (reason_lines r @ es) = reacts w es"
  by (cases r) simp_all

lemma trace_poll_body:
  "trace (poll_body w k x s) = trace s @ Call (now s) (Describe k x) # reaction w k x (now s)"
  by (simp add: poll_body_def reaction_def Let_def)

lemma after_reaction:
  "after p (reaction w k x t) =
     (if terminal (status (nested (describe w k x t))) then remove1 x p else p)"
  by (simp add: reaction_def Let_def terminal_def after_reason_lines)

lemma follows_reaction: "x \<in> set p \<Longrightarrow> follows p (reaction w k x t)"
  by (simp add: reaction_def Let_def follows_reason_lines)

lemma reacts_reaction: "reacts w (reaction w k x t)"
  by (simp add: reaction_def Let_def reacts_reason_lines)

lemma seg_refl: "seg w s s"
  by (simp add: seg_def)

lemma seg_trans: "seg w s s' \<Longrightarrow> seg w s' s'' \<Longrightarrow> seg w s s''"
proof -
  assume "seg w s s'" and "seg w s' s''"
  then obtain e1 e2 where
    1: "trace s' = trace s @ e1" "follows (pending s) e1" "after (pending s) e1 = pending s'"
       "reacts w e1" and
    2: "trace s'' = trace s' @ e2" "follows (pending s') e2" "after (pending s') e2 = pending s''"
       "reacts w e2"
    unfolding seg_def by blast
  have "trace s'' = trace s @ (e1 @ e2)" using 1(1) 2(1) by simp
  moreover have "follows (pending s) (e1 @ e2)" using 1 2 by (simp add: follows_append)
  moreover have "after (pending s) (e1 @ e2) = pending s''" using 1 2 by (simp add: after_append)
  moreover have "reacts w (e1 @ e2)" using 1(4) 2(4) by (rule reacts_append)
  ultimately show ?thesis unfolding seg_def by blast
qed

lemma seg_poll_body: "x \<in> set (pending s) \<Longrightarrow> seg w s (poll_body w k x s)"
  unfolding seg_def
  by (rule exI [of _ "Call (now s) (Describe k x) # reaction w k x (now s)"])
     (simp add: trace_poll_body pending_poll_body after_reaction follows_reaction reacts_reaction)

lemma seg_for_reversed: "seg w s (for_reversed w k n s)"
proof (induction n arbitrary: s)
  case 0
  then show ?case by (simp add: seg_refl)
next
  case (Suc n)
  show ?case
  proof (cases "n < length (pending s)")
    case True
    then have "seg w s (poll_body w k (pending s ! n) s)" by (simp add: seg_poll_body)
    from seg_trans [OF this Suc.IH] True show ?thesis by simp
  next
    case False
    then show ?thesis by (simp add: seg_refl)
  qed
qed

lemma seg_poll_round: "seg w s (poll_round w k s)"
proof -
  have "seg w s (s\<lparr>rounds := Suc (rounds s)\<rparr>)" by (simp add: seg_def)
  from seg_trans [OF this seg_for_reversed] show ?thesis by (simp add: poll_round_def)
qed

lemma seg_poll_all: "seg w s (poll_all w k max_time s)"
proof (induction w k max_time s rule: poll_all.induct)
  case (1 w k max_time s)
  let ?s1 = "poll_round w k s"
  let ?s2 = "?s1\<lparr>trace := trace ?s1 @ [Print (Still_in_progress k), Sleep 60],
                  now := now ?s1 + 60\<rparr>"
  show ?case
  proof (cases "now s < max_time")
    case False
    then show ?thesis by (simp add: poll_all_timeout seg_refl)
  next
    case True
    show ?thesis
    proof (cases "length (pending ?s1) > 0")
      case ne: True
      have eq: "poll_all w k max_time s = poll_all w k max_time ?s2"
        using True ne by (subst poll_all.simps) (simp add: Let_def)
      have "seg w ?s1 ?s2"
        unfolding seg_def by (rule exI [of _ "[Print (Still_in_progress k), Sleep 60]"]) simp
      from seg_trans [OF seg_trans [OF seg_poll_round this] "1.IH" [OF True refl ne]]
      show ?thesis by (simp only: eq)
    next
      case False
      then have eq: "poll_all w k max_time s = ?s1\<lparr>trace := trace ?s1 @ [Print (All_ended k)]\<rparr>"
        using True by (subst poll_all.simps) (simp add: Let_def)
      have "seg w ?s1 (?s1\<lparr>trace := trace ?s1 @ [Print (All_ended k)]\<rparr>)"
        unfolding seg_def by (rule exI [of _ "[Print (All_ended k)]"]) simp
      from seg_trans [OF seg_poll_round this] show ?thesis by (simp only: eq)
    qed
  qed
qed


text \<open>
  Claim C3. In a run of a multi-resource polling loop on distinct identifiers, a describe
  call on \<open>x\<close> that returns CREATE FAILED is followed at once by the \<^verbatim>\<open>failed\<close> line (and
  the reason line, if any) and the removal of \<open>x\<close> from the working list; after that \<open>x\<close>
  is never described and never removed again, it was not removed before, and it is not
  in the working list at the end.
\<close>

theorem failed_is_final:
  assumes "distinct arns"
    and "trace (poll_cell w k arns t0) = pre @ Call t (Describe k x) # post"
    and "status (nested (describe w k x t)) = ''CREATE FAILED''"
  shows "(\<exists>rest. post = Print (Failed_line k x)
                      # reason_lines (top_failureReason (describe w k x t)) @ Remove x # rest
            \<and> x \<notin> set (described rest) \<and> Remove x \<notin> set rest)
         \<and> Remove x \<notin> set pre
         \<and> x \<notin> set (pending (poll_cell w k arns t0))"
proof -
  let ?s' = "poll_cell w k arns t0"
  let ?r = "reaction w k x t"
  have "seg w \<lparr>now = t0, trace = [], pending = arns, rounds = 0\<rparr> ?s'"
    unfolding poll_cell_def by (rule seg_poll_all)
  then have fo: "follows arns (trace ?s')" and af: "after arns (trace ?s') = pending ?s'"
    and re: "reacts w (trace ?s')"
    by (auto simp: seg_def)
  let ?q = "after arns pre"
  have r: "?r = Print (Failed_line k x)
                # reason_lines (top_failureReason (describe w k x t)) @ [Remove x]"
    using assms(3) by (simp add: reaction_def)
  from re have "reacts w (Call t (Describe k x) # post)"
    unfolding assms(2) by (rule reacts_suffix)
  then have tk: "take (length ?r) post = ?r" by simp
  define rest where "rest = drop (length ?r) post"
  have post: "post = ?r @ rest"
    using tk append_take_drop_id [of "length ?r" post] by (simp add: rest_def)
  from fo have xq: "x \<in> set ?q" and fq: "follows ?q post" and fp: "follows arns pre"
    unfolding assms(2) by (simp_all add: follows_append)
  have dq: "distinct ?q" using assms(1) by (rule distinct_after)
  have fr: "follows (remove1 x ?q) rest"
    using fq by (simp add: post r follows_append after_reason_only follows_reason_only)
  have nx: "x \<notin> set (remove1 x ?q)" using dq by simp
  from absent_stays [OF nx fr]
  have a: "x \<notin> set (described rest)" "Remove x \<notin> set rest" by simp_all
  have "pending ?s' = after (remove1 x ?q) rest"
    using af by (simp add: assms(2) post r after_append after_reason_only)
  then have c: "x \<notin> set (pending ?s')" using nx set_after [of "remove1 x ?q" rest] by auto
  have b: "Remove x \<notin> set pre"
  proof
    assume "Remove x \<in> set pre"
    from removed_gone [OF assms(1) fp this] xq show False by simp
  qed
  have "post = Print (Failed_line k x)
                # reason_lines (top_failureReason (describe w k x t)) @ Remove x # rest"
    using post by (simp add: r)
  with a b c show ?thesis by blast
qed

theorem failed_is_final_witness:
  "distinct [''A'', ''B'', ''C'']
   \<and> status (nested (describe scenario_world DatasetImportJob ''C'' 0)) = ''CREATE FAILED''
   \<and> trace (poll_cell scenario_world DatasetImportJob [''A'', ''B'', ''C''] 0) =
       [] @ Call 0 (Describe DatasetImportJob ''C'')
          # [Print (Failed_line DatasetImportJob ''C''), Remove ''C'',
             Call 0 (Describe DatasetImportJob ''B''),
             Print (Completed DatasetImportJob ''B''), Remove ''B'',
             Call 0 (Describe DatasetImportJob ''A''),
             Print (Completed DatasetImportJob ''A''), Remove ''A'',
             Print (All_ended DatasetImportJob)]
   \<and> ''C'' \<notin> set (pending (poll_cell scenario_world DatasetImportJob [''A'', ''B'', ''C''] 0))"
proof -
  have d: "distinct [''A'', ''B'', ''C'']" by simp
  have f: "status (nested (describe scenario_world DatasetImportJob ''C'' 0)) = ''CREATE FAILED''"
    by (simp add: scenario_world_def)
  have t: "trace (poll_cell scenario_world DatasetImportJob [''A'', ''B'', ''C''] 0) =
       [] @ Call 0 (Describe DatasetImportJob ''C'')
          # [Print (Failed_line DatasetImportJob ''C''), Remove ''C'',
             Call 0 (Describe DatasetImportJob ''B''),
             Print (Completed DatasetImportJob ''B''), Remove ''B'',
             Call 0 (Describe DatasetImportJob ''A''),
             Print (Completed DatasetImportJob ''A''), Remove ''A'',
             Print (All_ended DatasetImportJob)]"
    by (simp add: poll_cell_def poll_all.simps poll_round_def poll_body_def scenario_world_def
        Let_def numeral_3_eq_3)
  from failed_is_final [OF d t f] d f t show ?thesis by blast
qed

section \<open>What a multi-resource loop reports\<close>

lemma mset_outcomes: "mset (outcomes es) = mset (completed es) + mset (failed es)"
proof (induction es)
  case Nil
  then show ?case by simp
next
  case (Cons e es)
  show ?case
  proof (cases e)
    case (Print l)
    then show ?thesis using Cons by (cases l) simp_all
  qed (simp_all add: Cons)
qed

lemma explained_append:
  "explained w prev (es @ fs) \<longleftrightarrow>
   explained w prev es \<and> explained w (if es = [] then prev else Some (last es)) fs"
  by (induction es arbitrary: prev) auto

lemma verdict_reason_lines: "e \<in> set (reason_lines r) \<Longrightarrow> verdict e = None"
  by (cases r) (auto simp: verdict_def split: if_splits)

lemma explained_quiet: "\<forall>e \<in> set es. verdict e = None \<Longrightarrow> explained w prev es"
  by (induction es arbitrary: prev) simp_all

lemma explained_poll_body:
  "explained w None (trace s) \<Longrightarrow> explained w None (trace (poll_body w k x s))"
proof -
  assume a: "explained w None (trace s)"
  have r: "explained w p (reason_lines r @ [Remove x])" for p r
    by (rule explained_quiet) (auto dest!: set_reason_lines simp: verdict_def)
  show ?thesis
    using a r
    by (auto simp: poll_body_def Let_def explained_append verdict_def read_status_def)
qed

lemma explained_for_reversed:
  "explained w None (trace s) \<Longrightarrow> explained w None (trace (for_reversed w k n s))"
  by (induction n arbitrary: s) (simp_all add: explained_poll_body)

lemma explained_poll_round:
  "explained w None (trace s) \<Longrightarrow> explained w None (trace (poll_round w k s))"
  by (simp add: poll_round_def explained_for_reversed)

lemma explained_poll_all:
  "explained w None (trace s) \<Longrightarrow> explained w None (trace (poll_all w k max_time s))"
proof (induction w k max_time s rule: poll_all.induct)
  case (1 w k max_time s)
  let ?s1 = "poll_round w k s"
  let ?s2 = "?s1\<lparr>trace := trace ?s1 @ [Print (Still_in_progress k), Sleep 60],
                  now := now ?s1 + 60\<rparr>"
  have o1: "explained w None (trace ?s1)" using "1.prems" by (rule explained_poll_round)
  show ?case
  proof (cases "now s < max_time")
    case False
    with "1.prems" show ?thesis by (simp add: poll_all_timeout)
  next
    case True
    show ?thesis
    proof (cases "length (pending ?s1) > 0")
      case ne: True
      have eq: "poll_all w k max_time s = poll_all w k max_time ?s2"
        using True ne by (subst poll_all.simps) (simp add: Let_def)
      have "explained w None (trace ?s2)"
        using o1 by (simp add: explained_append verdict_def)
      from "1.IH" [OF True refl ne this] show ?thesis by (simp only: eq)
    next
      case False
      then have eq: "poll_all w k max_time s = ?s1\<lparr>trace := trace ?s1 @ [Print (All_ended k)]\<rparr>"
        using True by (subst poll_all.simps) (simp add: Let_def)
      show ?thesis using o1 by (simp only: eq) (simp add: explained_append verdict_def)
    qed
  qed
qed

lemma set_outcomes: "set (outcomes es) = set (completed es) \<union> set (failed es)"
  using mset_outcomes [of es] by (metis set_mset_mset set_mset_union)

text \<open>
  The claim C2 as stated fails: a reader that returns a terminal value only after the
  maximum wait (here: active from the fourth hour on) satisfies "eventually terminal",
  and the loop ends after three hours with the identifier still pending and no outcome
  printed for it.
\<close>

theorem eventually_terminal_counterexample:
  "terminal (status (nested (describe (ready_at (4 * 60 * 60)) DatasetImportJob ''A'' (4 * 60 * 60))))
   \<and> 3 * 60 * 60 \<le> now (poll_cell (ready_at (4 * 60 * 60)) DatasetImportJob [''A''] 0)
   \<and> pending (poll_cell (ready_at (4 * 60 * 60)) DatasetImportJob [''A''] 0) = [''A'']
   \<and> outcomes (trace (poll_cell (ready_at (4 * 60 * 60)) DatasetImportJob [''A''] 0)) = []"
proof -
  let ?w = "ready_at (4 * 60 * 60)"
  let ?s0 = "\<lparr>now = 0, trace = [], pending = [''A''], rounds = 0\<rparr>"
  let ?s' = "poll_cell ?w DatasetImportJob [''A''] 0"
  have nt: "\<forall>t < (0 + 3 * 60 * 60) + length (pending ?s0) * latency ?w.
          \<not> terminal (status (nested (describe ?w DatasetImportJob ''A'' t)))"
    by (simp add: ready_at_def terminal_def)
  have st: "stuck DatasetImportJob ''A'' ?s0" by (simp add: stuck_def)
  from stuck_poll_all [OF nt st]
  have r: "stuck DatasetImportJob ''A'' ?s'" "3 * 60 * 60 \<le> now ?s'"
    by (simp_all add: poll_cell_def)
  have "mset (outcomes (trace ?s')) + mset (pending ?s') = mset [''A'']"
    using conserved_poll_all [of ?w DatasetImportJob "0 + 3 * 60 * 60" ?s0]
    by (simp add: poll_cell_def)
  then have "size (mset (outcomes (trace ?s')) + mset (pending ?s')) = 1" by simp
  then have len: "length (outcomes (trace ?s')) + length (pending ?s') = 1" by simp
  from r(1) have mem: "''A'' \<in> set (pending ?s')" by (simp add: stuck_def)
  then have pos: "0 < length (pending ?s')" by (cases "pending ?s'") simp_all
  from len pos have l1: "length (pending ?s') = Suc 0" by arith
  from len pos have l0: "length (outcomes (trace ?s')) = 0" by arith
  from l1 obtain y where y: "pending ?s' = [y]" by (auto simp: length_Suc_conv)
  with mem have p: "pending ?s' = [''A'']" by simp
  from l0 have q: "outcomes (trace ?s') = []" by simp
  have t: "terminal (status (nested (describe ?w DatasetImportJob ''A'' (4 * 60 * 60))))"
    by (simp add: ready_at_def terminal_def)
  from t r(2) p q show ?thesis by (intro conjI)
qed

text \<open>
  Claim C2, amended. A multi-resource polling loop always ends (the functions are total)
  and returns no value: the printed lines are its only result.
  \<^item> At its end every identifier of the list it started with is either still in the
    working list or has had exactly one outcome line printed, \<^verbatim>\<open>successfully completed\<close>
    or \<^verbatim>\<open>failed\<close>.
  \<^item> Every outcome line comes directly after the describe call on its identifier, and
    that call read ACTIVE for a \<^verbatim>\<open>successfully completed\<close> line and CREATE FAILED for a
    \<^verbatim>\<open>failed\<close> line; every describe call that read one of the two is followed at once by
    the line for it and the removal (with the reason line between them when the response
    has a reason at its top level).
  \<^item> If every reader returns a terminal value from some time \<open>T\<close> on, and \<open>T\<close> is not after
    the start of the loop or leaves room for one more round before the deadline (\<open>T\<close> plus
    one describe call for each identifier plus the sleep of 60 seconds is not after it),
    then the loop ends by its \<^verbatim>\<open>break\<close>, with an empty working list and one outcome line
    printed for each identifier.
  \<^item> An identifier whose reader returns no terminal value before the deadline plus one
    describe call for each identifier is still in the working list when the loop ends,
    at or after the deadline, with no outcome line and no closing line printed.
\<close>

theorem poll_cell_outcomes:
  "mset (completed (trace (poll_cell w k arns t0))) + mset (failed (trace (poll_cell w k arns t0)))
     + mset (pending (poll_cell w k arns t0)) = mset arns
   \<and> explained w None (trace (poll_cell w k arns t0))
   \<and> reacts w (trace (poll_cell w k arns t0))
   \<and> ((\<forall>x \<in> set arns. \<forall>t \<ge> T. terminal (status (nested (describe w k x t))))
        \<and> (T \<le> t0 \<or> T + length arns * latency w + 60 \<le> t0 + 3 * 60 * 60) \<longrightarrow>
        pending (poll_cell w k arns t0) = []
      \<and> mset (completed (trace (poll_cell w k arns t0)))
          + mset (failed (trace (poll_cell w k arns t0))) = mset arns
      \<and> (\<exists>es. trace (poll_cell w k arns t0) = es @ [Print (All_ended k)]))
   \<and> (x \<in> set arns
        \<and> (\<forall>t < t0 + 3 * 60 * 60 + length arns * latency w.
              \<not> terminal (status (nested (describe w k x t)))) \<longrightarrow>
        t0 + 3 * 60 * 60 \<le> now (poll_cell w k arns t0)
      \<and> x \<in> set (pending (poll_cell w k arns t0))
      \<and> x \<notin> set (completed (trace (poll_cell w k arns t0)))
      \<and> x \<notin> set (failed (trace (poll_cell w k arns t0)))
      \<and> Print (All_ended k) \<notin> set (trace (poll_cell w k arns t0)))"
proof -
  let ?s0 = "\<lparr>now = t0, trace = [], pending = arns, rounds = 0\<rparr>"
  let ?s' = "poll_cell w k arns t0"
  have s': "?s' = poll_all w k (t0 + 3 * 60 * 60) ?s0" by (simp add: poll_cell_def)
  have c: "mset (completed (trace ?s')) + mset (failed (trace ?s')) + mset (pending ?s') = mset arns"
    using conserved_poll_all [of w k "t0 + 3 * 60 * 60" ?s0]
    by (simp add: s' mset_outcomes)
  have e: "explained w None (trace ?s')"
    unfolding s' by (rule explained_poll_all) simp
  have r: "reacts w (trace ?s')"
    using seg_poll_all [of w ?s0 k "t0 + 3 * 60 * 60"] by (auto simp: seg_def s')
  have f: "pending ?s' = []
      \<and> mset (completed (trace ?s')) + mset (failed (trace ?s')) = mset arns
      \<and> (\<exists>es. trace ?s' = es @ [Print (All_ended k)])"
    if a: "\<forall>x \<in> set arns. \<forall>t \<ge> T. terminal (status (nested (describe w k x t)))"
      and b: "T \<le> t0 \<or> T + length arns * latency w + 60 \<le> t0 + 3 * 60 * 60"
  proof -
    have "pending (poll_all w k (t0 + 3 * 60 * 60) ?s0) = []
       \<and> (\<exists>es. trace (poll_all w k (t0 + 3 * 60 * 60) ?s0) = es @ [Print (All_ended k)])"
      using a b by (intro poll_all_finishes [where T = T]) simp_all
    then have p: "pending ?s' = []" and q: "\<exists>es. trace ?s' = es @ [Print (All_ended k)]"
      by (simp_all add: s')
    from c p have "mset (completed (trace ?s')) + mset (failed (trace ?s')) = mset arns" by simp
    with p q show ?thesis by (intro conjI)
  qed
  have g: "t0 + 3 * 60 * 60 \<le> now ?s' \<and> x \<in> set (pending ?s')
      \<and> x \<notin> set (completed (trace ?s')) \<and> x \<notin> set (failed (trace ?s'))
      \<and> Print (All_ended k) \<notin> set (trace ?s')"
    if m: "x \<in> set arns"
      and nt: "\<forall>t < t0 + 3 * 60 * 60 + length arns * latency w.
              \<not> terminal (status (nested (describe w k x t)))"
  proof -
    have nt': "\<forall>t < (t0 + 3 * 60 * 60) + length (pending ?s0) * latency w.
          \<not> terminal (status (nested (describe w k x t)))" using nt by simp
    have st: "stuck k x ?s0" using m by (simp add: stuck_def)
    from stuck_poll_all [OF nt' st]
    have "stuck k x ?s'" and "t0 + 3 * 60 * 60 \<le> now ?s'" by (simp_all add: s')
    then show ?thesis by (simp add: stuck_def set_outcomes)
  qed
  from c e r f g show ?thesis by blast
qed

theorem poll_cell_outcomes_witness:
  "pending (poll_cell (ready_at 100) SolutionVersion [''A'', ''B'', ''C''] 0) = []
   \<and> mset (completed (trace (poll_cell (ready_at 100) SolutionVersion [''A'', ''B'', ''C''] 0)))
      + mset (failed (trace (poll_cell (ready_at 100) SolutionVersion [''A'', ''B'', ''C''] 0)))
       = mset [''A'', ''B'', ''C'']
   \<and> explained (ready_at 100) None
        (trace (poll_cell (ready_at 100) SolutionVersion [''A'', ''B'', ''C''] 0))
   \<and> ''A'' \<in> set (pending (poll_cell (ready_at (4 * 60 * 60)) DatasetImportJob [''A''] 0))
   \<and> ''A'' \<notin> set (completed (trace
        (poll_cell (ready_at (4 * 60 * 60)) DatasetImportJob [''A''] 0)))"
proof -
  have a: "\<forall>x \<in> set [''A'', ''B'', ''C'']. \<forall>t \<ge> 100.
             terminal (status (nested (describe (ready_at 100) SolutionVersion x t)))"
    by (simp add: ready_at_def terminal_def)
  have b: "(100::nat) \<le> 0
       \<or> 100 + length [''A'', ''B'', ''C''] * latency (ready_at 100) + 60 \<le> 0 + 3 * 60 * 60"
    by (simp add: ready_at_def)
  have c: "''A'' \<in> set [''A'']
       \<and> (\<forall>t < 0 + 3 * 60 * 60 + length [''A''] * latency (ready_at (4 * 60 * 60)).
              \<not> terminal (status (nested
                  (describe (ready_at (4 * 60 * 60)) DatasetImportJob ''A'' t))))"
    by (simp add: ready_at_def terminal_def)
  from poll_cell_outcomes [of "ready_at 100" SolutionVersion "[''A'', ''B'', ''C'']" 0 100] a b
  have 1: "pending (poll_cell (ready_at 100) SolutionVersion [''A'', ''B'', ''C''] 0) = []
   \<and> mset (completed (trace (poll_cell (ready_at 100) SolutionVersion [''A'', ''B'', ''C''] 0)))
      + mset (failed (trace (poll_cell (ready_at 100) SolutionVersion [''A'', ''B'', ''C''] 0)))
       = mset [''A'', ''B'', ''C'']
   \<and> explained (ready_at 100) None
        (trace (poll_cell (ready_at 100) SolutionVersion [''A'', ''B'', ''C''] 0))"
    by blast
  from poll_cell_outcomes [of "ready_at (4 * 60 * 60)" DatasetImportJob "[''A'']" 0 T "''A''" for T] c
  have 2: "''A'' \<in> set (pending (poll_cell (ready_at (4 * 60 * 60)) DatasetImportJob [''A''] 0))
   \<and> ''A'' \<notin> set (completed (trace
        (poll_cell (ready_at (4 * 60 * 60)) DatasetImportJob [''A''] 0)))"
    by blast
  from 1 2 show ?thesis by (intro conjI) blast+
qed

section \<open>The item-name helper is partial\<close>

lemma get_found:
  "find (\<lambda>row. id_col row = item_id) df = Some row \<Longrightarrow>
   get_item_name_from_id df item_id = Inr (name_col row)"
  by (induction df) (auto simp: get_item_name_from_id_def split: if_splits)

lemma get_missing:
  "item_id \<notin> id_col ` set df \<Longrightarrow> get_item_name_from_id df item_id = Inl IndexError"
proof -
  assume "item_id \<notin> id_col ` set df"
  then have "filter (\<lambda>row. id_col row = item_id) df = []"
    by (auto simp: filter_empty_conv)
  then show ?thesis by (simp add: get_item_name_from_id_def)
qed

lemma get_present:
  "item_id \<in> id_col ` set df \<Longrightarrow>
   \<exists>row. find (\<lambda>row. id_col row = item_id) df = Some row
       \<and> get_item_name_from_id df item_id = Inr (name_col row)"
proof -
  assume "item_id \<in> id_col ` set df"
  then have "\<exists>row \<in> set df. id_col row = item_id" by auto
  then have "find (\<lambda>row. id_col row = item_id) df \<noteq> None" by (auto simp: find_None_iff)
  then obtain row where r: "find (\<lambda>row. id_col row = item_id) df = Some row" by auto
  from r get_found [OF r] show ?thesis by blast
qed

lemma apply_rows_ok:
  "\<forall>p \<in> set (row # rows). ITEM_ID p \<in> id_col ` set df \<Longrightarrow>
   \<exists>names. apply_rows df row rows = Inr names \<and> length names = Suc (length rows)
     \<and> (\<forall>i < Suc (length rows).
           get_item_name_from_id df (ITEM_ID ((row # rows) ! i)) = Inr (names ! i))"
proof (induction rows arbitrary: row)
  case Nil
  then have "ITEM_ID row \<in> id_col ` set df" by simp
  from get_present [OF this] obtain item_name where
    "get_item_name_from_id df (ITEM_ID row) = Inr item_name" by blast
  then show ?case by simp
next
  case (Cons next_row rows)
  then have "ITEM_ID row \<in> id_col ` set df" by simp
  from get_present [OF this] obtain item_name where
    g: "get_item_name_from_id df (ITEM_ID row) = Inr item_name" by blast
  from Cons.prems have "\<forall>p \<in> set (next_row # rows). ITEM_ID p \<in> id_col ` set df" by simp
  from Cons.IH [OF this] obtain names where
    n: "apply_rows df next_row rows = Inr names" "length names = Suc (length rows)"
      "\<forall>i < Suc (length rows).
           get_item_name_from_id df (ITEM_ID ((next_row # rows) ! i)) = Inr (names ! i)"
    by blast
  have "\<forall>i < Suc (length (next_row # rows)).
           get_item_name_from_id df (ITEM_ID ((row # next_row # rows) ! i))
             = Inr ((item_name # names) ! i)"
  proof (intro allI impI)
    fix i assume "i < Suc (length (next_row # rows))"
    then show "get_item_name_from_id df (ITEM_ID ((row # next_row # rows) ! i))
             = Inr ((item_name # names) ! i)"
      using g n(3) by (cases i) simp_all
  qed
  with g n(1,2) show ?case by simp
qed

lemma apply_rows_missing:
  "\<exists>p \<in> set (row # rows). ITEM_ID p \<notin> id_col ` set df \<Longrightarrow>
   apply_rows df row rows = Inl IndexError"
proof (induction rows arbitrary: row)
  case Nil
  then have "ITEM_ID row \<notin> id_col ` set df" by simp
  from get_missing [OF this] show ?case by simp
next
  case (Cons next_row rows)
  show ?case
  proof (cases "ITEM_ID row \<in> id_col ` set df")
    case False
    from get_missing [OF this] show ?thesis by simp
  next
    case True
    from get_present [OF this] obtain item_name where
      g: "get_item_name_from_id df (ITEM_ID row) = Inr item_name" by blast
    from True Cons.prems
    have "\<exists>p \<in> set (next_row # rows). ITEM_ID p \<notin> id_col ` set df" by auto
    from Cons.IH [OF this] g show ?thesis by simp
  qed
qed

text \<open>
  Claim C10. \<^verbatim>\<open>get_item_name_from_id\<close> is partial: for an \<^verbatim>\<open>item_id\<close> that occurs in the
  metadata table it returns the name of the first row with that id, and for an \<^verbatim>\<open>item_id\<close>
  with no row it raises IndexError. Its caller applies it to every row of the products
  table: when the table has rows and every \<^verbatim>\<open>ITEM_ID\<close> occurs in the metadata, the cell pairs
  each row with the name the helper returns for it; when some \<^verbatim>\<open>ITEM_ID\<close> does not occur in
  the metadata, the cell ends in IndexError. (On a products table without rows no id is
  looked up and the assignment raises ValueError.)
\<close>

theorem get_item_name_from_id_partial:
  "(item_id \<in> id_col ` set df \<longrightarrow>
      (\<exists>row. find (\<lambda>row. id_col row = item_id) df = Some row
         \<and> get_item_name_from_id df item_id = Inr (name_col row)))
   \<and> (item_id \<notin> id_col ` set df \<longrightarrow> get_item_name_from_id df item_id = Inl IndexError)
   \<and> (products \<noteq> [] \<and> (\<forall>p \<in> set products. ITEM_ID p \<in> id_col ` set df) \<longrightarrow>
        (\<exists>names. item_names_cell df products = Inr (zip products names)
           \<and> length names = length products
           \<and> (\<forall>i < length products.
                 get_item_name_from_id df (ITEM_ID (products ! i)) = Inr (names ! i))))
   \<and> ((\<exists>p \<in> set products. ITEM_ID p \<notin> id_col ` set df) \<longrightarrow>
        item_names_cell df products = Inl IndexError)
   \<and> item_names_cell df [] = Inl ValueError"
proof (intro conjI impI)
  assume a: "products \<noteq> [] \<and> (\<forall>p \<in> set products. ITEM_ID p \<in> id_col ` set df)"
  then obtain row rows where p: "products = row # rows" by (cases products) auto
  with a have "\<forall>p \<in> set (row # rows). ITEM_ID p \<in> id_col ` set df" by simp
  from apply_rows_ok [OF this] obtain names where
    n: "apply_rows df row rows = Inr names" "length names = Suc (length rows)"
      "\<forall>i < Suc (length rows).
           get_item_name_from_id df (ITEM_ID ((row # rows) ! i)) = Inr (names ! i)"
    by blast
  have "item_names_cell df products = Inr (zip products names)"
    using n(1) by (simp add: item_names_cell_def apply_axis1_def p)
  with n(2,3) show "\<exists>names. item_names_cell df products = Inr (zip products names)
           \<and> length names = length products
           \<and> (\<forall>i < length products.
                 get_item_name_from_id df (ITEM_ID (products ! i)) = Inr (names ! i))"
    unfolding p by (intro exI [of _ names]) simp
next
  assume m: "\<exists>p \<in> set products. ITEM_ID p \<notin> id_col ` set df"
  then obtain row rows where p: "products = row # rows" by (cases products) auto
  with m have "\<exists>p \<in> set (row # rows). ITEM_ID p \<notin> id_col ` set df" by simp
  from apply_rows_missing [OF this]
  show "item_names_cell df products = Inl IndexError"
    by (simp add: item_names_cell_def apply_axis1_def p)
next
  show "item_names_cell df [] = Inl ValueError"
    by (simp add: item_names_cell_def apply_axis1_def)
qed (simp_all add: get_present get_missing)

theorem get_item_name_from_id_partial_witness:
  "''1'' \<in> id_col ` set example_metadata
   \<and> get_item_name_from_id example_metadata ''1'' = Inr ''Sneakers''
   \<and> ''3'' \<notin> id_col ` set example_metadata
   \<and> get_item_name_from_id example_metadata ''3'' = Inl IndexError
   \<and> item_names_cell example_metadata example_products
       = Inr (zip example_products [''Kettle'', ''Sneakers''])
   \<and> item_names_cell example_metadata
       (example_products @ [\<lparr>ITEM_ID = ''3'', CATEGORY = [], STYLE = [], DESCRIPTION = []\<rparr>])
       = Inl IndexError"
proof -
  have a: "''1'' \<in> id_col ` set example_metadata" by (simp add: example_metadata_def)
  have b: "''3'' \<notin> id_col ` set example_metadata" by (simp add: example_metadata_def)
  have c: "find (\<lambda>row. id_col row = ''1'') example_metadata = Some (hd example_metadata)"
    by (simp add: example_metadata_def)
  have d: "item_names_cell example_metadata example_products
       = Inr (zip example_products [''Kettle'', ''Sneakers''])"
    by (simp add: item_names_cell_def apply_axis1_def example_products_def example_metadata_def
        get_item_name_from_id_def)
  have e: "\<exists>p \<in> set (example_products
              @ [\<lparr>ITEM_ID = ''3'', CATEGORY = [], STYLE = [], DESCRIPTION = []\<rparr>]).
             ITEM_ID p \<notin> id_col ` set example_metadata"
    by (simp add: example_metadata_def)
  from get_item_name_from_id_partial [of "''1''" example_metadata]
       get_item_name_from_id_partial [of "''3''" example_metadata
         "example_products @ [\<lparr>ITEM_ID = ''3'', CATEGORY = [], STYLE = [], DESCRIPTION = []\<rparr>]"]
       a b c d e
  show ?thesis by (auto simp: example_metadata_def)
qed

section \<open>Creating a schema twice\<close>

lemmas statement_defs = call_def called_def call_list_schemas_def print_line_def assign_def
  raise_def read_var_def returning_def ignore_result_def sleep_def store_status_def
  fresh_notebook_def

text \<open>
  Claim C7. In \<open>created_once\<close> the users schema cell, run at time 0 in a new kernel, creates
  the schema and binds \<^verbatim>\<open>users_schema_arn\<close> to the new identifier. Run again at time 1 in a
  new kernel, the creation call raises ResourceAlreadyExistsException, the handler lists
  the schemas and looks for \<^verbatim>\<open>personalize-immersion-day-retail-schema-users\<close>, while the
  schema was created as \<^verbatim>\<open>rpersonalize-immersion-day-retail-schema-users\<close>: no summary
  matches, nothing is raised, and \<^verbatim>\<open>users_schema_arn\<close> stays unbound. The interactions and
  items cells, whose two names agree, bind the identifier of the first run again.
\<close>

theorem users_schema_recreated:
  "vars (users_schema_cell created_once (fresh_notebook 0)) ''users_schema_arn'' =
     Some ''schema/rpersonalize-immersion-day-retail-schema-users''
   \<and> raised (users_schema_cell created_once (fresh_notebook 1)) = None
   \<and> trace (users_schema_cell created_once (fresh_notebook 1)) =
       [Call 1 (Create_schema ''rpersonalize-immersion-day-retail-schema-users''),
        Print Already_created, Call 2 (List_schemas 100)]
   \<and> vars (users_schema_cell created_once (fresh_notebook 1)) ''users_schema_arn'' = None
   \<and> vars (interactions_schema_cell created_once (fresh_notebook 1)) ''interactions_schema_arn'' =
     vars (interactions_schema_cell created_once (fresh_notebook 0)) ''interactions_schema_arn''
   \<and> vars (items_schema_cell created_once (fresh_notebook 1)) ''items_schema_arn'' =
     vars (items_schema_cell created_once (fresh_notebook 0)) ''items_schema_arn''"
  by (simp add: users_schema_cell_def interactions_schema_cell_def items_schema_cell_def
      try_create_schema_def lookup_schema_def statement_defs created_once_def)

section \<open>Errors of the creation calls\<close>





















section \<open>The notebooks describe before they use\<close>






















lemma poll_all_exit:
  "pending (poll_all w k max_time s) = [] \<or> max_time \<le> now (poll_all w k max_time s)"
proof (induction w k max_time s rule: poll_all.induct)
  case (1 w k max_time s)
  let ?s1 = "poll_round w k s"
  let ?s2 = "?s1\<lparr>trace := trace ?s1 @ [Print (Still_in_progress k), Sleep 60],
                  now := now ?s1 + 60\<rparr>"
  show ?case
  proof (cases "now s < max_time")
    case False
    then show ?thesis by (simp add: poll_all_timeout)
  next
    case True
    show ?thesis
    proof (cases "length (pending ?s1) > 0")
      case ne: True
      have eq: "poll_all w k max_time s = poll_all w k max_time ?s2"
        using True ne by (subst poll_all.simps) (simp add: Let_def)
      from "1.IH" [OF True refl ne] show ?thesis by (simp only: eq)
    next
      case False
      then have eq: "poll_all w k max_time s = ?s1\<lparr>trace := trace ?s1 @ [Print (All_ended k)]\<rparr>"
        using True by (subst poll_all.simps) (simp add: Let_def)
      show ?thesis using False by (simp only: eq) simp
    qed
  qed
qed















































































lemma waited_fin:
  "waited fin w k a t es \<longleftrightarrow> waited False w k a t es \<or> (waited True w k a t es \<and> fin)"
proof (induction es)
  case Nil
  then show ?case by simp
next
  case (Cons e es)
  then show ?case by (cases e) auto
qed


lemma waited_weaken: "waited fin w k a t es \<Longrightarrow> (fin \<Longrightarrow> fin') \<Longrightarrow> waited fin' w k a t es"
  using waited_fin [of fin w k a t es] waited_fin [of fin' w k a t es] by blast




lemma settled_mono:
  "settled g w es \<Longrightarrow> (\<And>k a t. g k a t \<Longrightarrow> h k a t) \<Longrightarrow> settled h w es"
proof (induction es)
  case Nil
  then show ?case by simp
next
  case (Cons e es)
  show ?case
  proof (cases e)
    case (Call t r)
    then show ?thesis
      using Cons by (auto split: option.splits sum.splits intro: waited_weaken)
  qed (use Cons in simp_all)
qed




lemma owes_raised: "raised s \<noteq> None \<Longrightarrow> owes w U s = settled (\<lambda>k a t. True) w (trace s)"
  by (simp add: owes_def)










lemma owes_run: "(\<And>c. c \<in> set cs \<Longrightarrow> moves w U U c) \<Longrightarrow> owes w U s \<Longrightarrow> owes w U (run cs s)"
  by (induction cs arbitrary: s) (auto simp: moves_def)






lemma owes_mono: "U \<subseteq> U' \<Longrightarrow> owes w U s \<Longrightarrow> owes w U' s"
  unfolding owes_def by (erule settled_mono) (auto simp: held_def)





lemma leads_moves: "(\<And>c. c \<in> set cs \<Longrightarrow> moves w U U c) \<Longrightarrow> leads w U U cs"
  unfolding leads_def using owes_run [of cs w U] by blast
















































end
